theory Spec2Isabelle
  imports Main "HOL-Library.Word"
begin

section \<open>Data model of the minimization engine\<close>

text \<open>
  The development embeds the two variants of \<^verbatim>\<open>prog/minimization.go\<close>: the file of
  \<^verbatim>\<open>collect/syzkaller_influence\<close> (influence learning) and the file \<^verbatim>\<open>unnamed/part_000\<close>
  (whole-array emptying, removal of unrelated calls).  Go panics are values of type
  \<open>error\<close>; every function that can panic returns \<open>error + 'a\<close>.
\<close>

datatype error =
    BadCallIndex              \<comment> \<open>panic("bad call index")\<close>
  | BadCallIndexAfter         \<comment> \<open>panic("bad call index after minimization: ...")\<close>
  | SharedProgramCommitted    \<comment> \<open>panic("shared program committed")\<close>
  | StaleProgram              \<comment> \<open>panic("iterating over stale program")\<close>
  | MinimizingNoMinimize      \<comment> \<open>panic("minimizing `no_minimize` call ...")\<close>
  | ValidateFailed            \<comment> \<open>panic raised by debugValidate\<close>
  | TypeAssertion             \<comment> \<open>failed type assertion \<^verbatim>\<open>arg.(*T)\<close>\<close>
  | ItemsIndex                \<comment> \<open>index out of range: \<^verbatim>\<open>q.items[0]\<close>\<close>
  | CallsIndex                \<comment> \<open>index out of range: \<^verbatim>\<open>p.Calls[i]\<close>\<close>
  | ArgsIndex                 \<comment> \<open>index out of range: \<^verbatim>\<open>call.Args[j]\<close>\<close>
  | FieldsIndex               \<comment> \<open>index out of range: \<^verbatim>\<open>typ.Fields[i]\<close>\<close>
  | MatrixIndex               \<comment> \<open>index out of range: \<^verbatim>\<open>InfluenceMatrix[s][d]\<close>\<close>
  | CovHashIndex              \<comment> \<open>index out of range: \<^verbatim>\<open>Minimize_CallsCovHash[i]\<close>\<close>
  | InnerIndex                \<comment> \<open>index out of range: \<^verbatim>\<open>a.Inner[i]\<close>\<close>
  | SliceBounds               \<comment> \<open>slice bounds out of range: \<^verbatim>\<open>a.Data()[:n]\<close>\<close>
  | Detached                  \<comment> \<open>no panic of the code: see the section on positions\<close>

datatype Dir = DirIn | DirOut | DirInOut

datatype ArrayKind = ArrayRandLen | ArrayRangeLen

datatype BufferKind =
    BufferBlobRand | BufferBlobRange | BufferString | BufferFilename
  | BufferText | BufferGlob | BufferCompressed

text \<open>
  Type descriptors, with the attributes the minimizer reads.  \<open>TypeCommon\<close> stands for
  every type that inherits \<^verbatim>\<open>TypeCommon.minimize\<close> (const, len, csum, vma).
\<close>

datatype Type =
    IntType "64 word"                                \<comment> \<open>value of DefaultArg\<close>
  | FlagsType "64 word"                              \<comment> \<open>value of DefaultArg\<close>
  | ProcType bool "64 word"                          \<comment> \<open>Optional(), value of DefaultArg\<close>
  | PtrType
  | ArrayType ArrayKind "64 word" "64 word"          \<comment> \<open>Kind, RangeBegin, RangeEnd\<close>
  | StructType "string list"                         \<comment> \<open>Fields[i].Name\<close>
  | UnionType "string list"                          \<comment> \<open>Fields[i].Name\<close>
  | BufferType BufferKind "64 word" bool bool        \<comment> \<open>Kind, RangeBegin, Varlen(), NoZ\<close>
  | ResourceType "64 word"                           \<comment> \<open>Default()\<close>
  | TypeCommon

text \<open>
  Argument trees.  A \<open>ResultArg\<close> carries an identity (its address in the Go heap) and
  the identity of its producer (\<^verbatim>\<open>Res\<close>); the reverse set \<^verbatim>\<open>uses\<close> of a producer is
  the set of result arguments that name it.
\<close>

datatype Arg =
    ConstArg Type Dir "64 word"                      \<comment> \<open>Val\<close>
  | PointerArg Type Dir "64 word" "Arg option"       \<comment> \<open>Address, Res\<close>
  | GroupArg Type Dir "Arg list"                     \<comment> \<open>Inner\<close>
  | UnionArg Type Dir Arg nat                        \<comment> \<open>Option, Index\<close>
  | DataArg Type Dir "8 word list"                   \<comment> \<open>data\<close>
  | ResultArg Type Dir nat "nat option" "64 word"    \<comment> \<open>identity, Res, Val\<close>

fun arg_Type :: "Arg \<Rightarrow> Type" where
  "arg_Type (ConstArg t d v) = t"
| "arg_Type (PointerArg t d a r) = t"
| "arg_Type (GroupArg t d xs) = t"
| "arg_Type (UnionArg t d x i) = t"
| "arg_Type (DataArg t d bs) = t"
| "arg_Type (ResultArg t d n r v) = t"

fun arg_Dir :: "Arg \<Rightarrow> Dir" where
  "arg_Dir (ConstArg t d v) = d"
| "arg_Dir (PointerArg t d a r) = d"
| "arg_Dir (GroupArg t d xs) = d"
| "arg_Dir (UnionArg t d x i) = d"
| "arg_Dir (DataArg t d bs) = d"
| "arg_Dir (ResultArg t d n r v) = d"

record Syscall =
  ID :: nat
  Name :: string
  ArgNames :: "string list"      \<comment> \<open>Meta.Args[j].Name\<close>
  NoMinimize :: bool             \<comment> \<open>Meta.Attrs.NoMinimize\<close>

record CallProps =
  FailNth :: int
  Async :: bool
  Rerun :: int

definition CallProps0 :: CallProps where
  "CallProps0 = \<lparr>FailNth = 0, Async = False, Rerun = 0\<rparr>"

record Call =
  Meta :: Syscall
  Args :: "Arg list"
  Ret :: "Arg option"
  Props :: CallProps

record Prog =
  Calls :: "Call list"
  Influence_Hash_NeedUpdate :: bool
  Minimize_ExecuteStatus :: bool
  Minimize_CallsCovHash :: "32 word list"

text \<open>
  Modelled from the spec: the oracle's answer with its out-of-band telemetry (a 32-bit
  coverage hash per call position and "execution reached completion").  The fields
  \<^verbatim>\<open>Minimize_ExecuteStatus\<close> and \<^verbatim>\<open>Minimize_CallsCovHash\<close> of the program handed to the
  oracle hold these values when the oracle returns.
\<close>

record verdict =
  accept :: bool
  ExecuteStatus :: bool
  CallsCovHash :: "32 word list"

text \<open>
  What the files use and do not define is a parameter: the host's oracle (with a
  state of its own), the global \<^verbatim>\<open>Influence_Learning_Enable\<close>, the target's hooks and
  the constant \<^verbatim>\<open>specialFileLenPad\<close>.  \<open>pred0\<close> is the oracle of \<^verbatim>\<open>minimization.go\<close>,
  \<^verbatim>\<open>pred0(p, callIndex)\<close>; \<open>pred0_typed\<close> is the oracle of \<^verbatim>\<open>part_000\<close>, which takes a
  third argument, \<^verbatim>\<open>pred0(p, callIndex, minimize_type_flag)\<close>.
\<close>

record 's config =
  pred0 :: "'s \<Rightarrow> Prog \<Rightarrow> int \<Rightarrow> verdict \<times> 's"
  Influence_Learning_Enable :: bool
  Neutralize :: "Syscall \<Rightarrow> Arg list \<Rightarrow> Arg list"
  debugValidate :: "Prog \<Rightarrow> bool"
  assignSizesCall :: "Syscall \<Rightarrow> Arg list \<Rightarrow> Arg list"
  setDefaultConditions :: "Syscall \<Rightarrow> Arg list \<Rightarrow> Arg list \<times> bool"
  specialFileLenPad :: "8 word list"
  pred0_typed :: "'s \<Rightarrow> Prog \<Rightarrow> int \<Rightarrow> int \<Rightarrow> verdict \<times> 's"

text \<open>The state shared by all programs of a session: the target's matrix and the oracle.\<close>

record 's env =
  InfluenceMatrix :: "8 word list list"
  ostate :: "'s"

definition index :: "error \<Rightarrow> 'a list \<Rightarrow> nat \<Rightarrow> error + 'a" where
  "index e xs i = (if i < length xs then Inr (xs ! i) else Inl e)"

subsection \<open>Resource graph\<close>

text \<open>
  Modelled from the spec: \<^verbatim>\<open>removeArg\<close>, \<^verbatim>\<open>Prog.RemoveCall\<close> and \<^verbatim>\<open>Prog.Clone\<close> are
  not in the sources.  Removing a producer clears every consumer's handle to the
  resource type's default and does not delete the consumer; a clone is a deep copy
  (the same value) whose telemetry fields are those of a fresh program.
\<close>

fun arg_rids :: "Arg \<Rightarrow> nat list" where
  "arg_rids (ConstArg t d v) = []"
| "arg_rids (PointerArg t d a r) = (case r of None \<Rightarrow> [] | Some x \<Rightarrow> arg_rids x)"
| "arg_rids (GroupArg t d xs) = concat (map arg_rids xs)"
| "arg_rids (UnionArg t d x i) = arg_rids x"
| "arg_rids (DataArg t d bs) = []"
| "arg_rids (ResultArg t d n r v) = [n]"

definition type_Default :: "Type \<Rightarrow> 64 word" where
  "type_Default t = (case t of ResourceType v \<Rightarrow> v | _ \<Rightarrow> 0)"

fun clear_uses :: "nat list \<Rightarrow> Arg \<Rightarrow> Arg" where
  "clear_uses rs (ConstArg t d v) = ConstArg t d v"
| "clear_uses rs (PointerArg t d a r) = PointerArg t d a (map_option (clear_uses rs) r)"
| "clear_uses rs (GroupArg t d xs) = GroupArg t d (map (clear_uses rs) xs)"
| "clear_uses rs (UnionArg t d x i) = UnionArg t d (clear_uses rs x) i"
| "clear_uses rs (DataArg t d bs) = DataArg t d bs"
| "clear_uses rs (ResultArg t d n r v) =
     (case r of
        None \<Rightarrow> ResultArg t d n r v
      | Some m \<Rightarrow> if m \<in> set rs then ResultArg t d n None (type_Default t)
                  else ResultArg t d n r v)"

definition clear_call :: "nat list \<Rightarrow> Call \<Rightarrow> Call" where
  "clear_call rs c = c\<lparr>Args := map (clear_uses rs) (Args c),
                       Ret := map_option (clear_uses rs) (Ret c)\<rparr>"

definition removeArg :: "Arg \<Rightarrow> Prog \<Rightarrow> Prog" where
  "removeArg a p = p\<lparr>Calls := map (clear_call (arg_rids a)) (Calls p)\<rparr>"

definition call_rids :: "Call \<Rightarrow> nat list" where
  "call_rids c = concat (map arg_rids (Args c)) @ (case Ret c of None \<Rightarrow> [] | Some r \<Rightarrow> arg_rids r)"

definition RemoveCall :: "Prog \<Rightarrow> nat \<Rightarrow> Prog" where
  "RemoveCall p idx =
     p\<lparr>Calls := map (clear_call (call_rids (Calls p ! idx)))
                   (take idx (Calls p) @ drop (Suc idx) (Calls p))\<rparr>"

definition Clone :: "Prog \<Rightarrow> Prog" where
  "Clone p = \<lparr>Calls = Calls p, Influence_Hash_NeedUpdate = False,
              Minimize_ExecuteStatus = False, Minimize_CallsCovHash = []\<rparr>"

subsection \<open>The oracle adapter\<close>

text \<open>
  \<^verbatim>\<open>pred\<close> of \<^verbatim>\<open>Minimize\<close>: sanitize, validate, ask the host.  Modelled from the spec:
  \<^verbatim>\<open>sanitizeFix\<close> neutralizes the arguments of every call and leaves the calls
  themselves in place.  The result carries the program as the oracle leaves it.
\<close>

definition sanitizeFix :: "'s config \<Rightarrow> Prog \<Rightarrow> Prog" where
  "sanitizeFix cfg p =
     p\<lparr>Calls := map (\<lambda>c. c\<lparr>Args := Neutralize cfg (Meta c) (Args c)\<rparr>) (Calls p)\<rparr>"

definition pred :: "'s config \<Rightarrow> 's env \<Rightarrow> Prog \<Rightarrow> int \<Rightarrow> error + (bool \<times> Prog \<times> 's env)" where
  "pred cfg env p callIndex =
     (let p1 = sanitizeFix cfg p in
      if \<not> debugValidate cfg p1 then Inl ValidateFailed
      else (case pred0 cfg (ostate env) p1 callIndex of
              (v, s') \<Rightarrow>
                Inr (accept v,
                     p1\<lparr>Minimize_ExecuteStatus := ExecuteStatus v,
                        Minimize_CallsCovHash := CallsCovHash v\<rparr>,
                     env\<lparr>ostate := s'\<rparr>)))"

text \<open>\<^verbatim>\<open>pred\<close> of \<^verbatim>\<open>Minimize\<close> in \<^verbatim>\<open>part_000\<close>, with the flag it hands on.\<close>

definition pred_typed :: "'s config \<Rightarrow> 's env \<Rightarrow> Prog \<Rightarrow> int \<Rightarrow> int \<Rightarrow>
    error + (bool \<times> Prog \<times> 's env)" where
  "pred_typed cfg env p callIndex minimize_type_flag =
     (let p1 = sanitizeFix cfg p in
      if \<not> debugValidate cfg p1 then Inl ValidateFailed
      else (case pred0_typed cfg (ostate env) p1 callIndex minimize_type_flag of
              (v, s') \<Rightarrow>
                Inr (accept v,
                     p1\<lparr>Minimize_ExecuteStatus := ExecuteStatus v,
                        Minimize_CallsCovHash := CallsCovHash v\<rparr>,
                     env\<lparr>ostate := s'\<rparr>)))"

section \<open>Call-level minimizer\<close>

subsection \<open>IntQueue\<close>

record IntQueue =
  items :: "nat list"

definition NewIntQueue :: IntQueue where
  "NewIntQueue = \<lparr>items = []\<rparr>"

definition Enqueue :: "IntQueue \<Rightarrow> nat \<Rightarrow> IntQueue" where
  "Enqueue q item = q\<lparr>items := items q @ [item]\<rparr>"

definition Dequeue :: "IntQueue \<Rightarrow> error + (nat \<times> bool \<times> IntQueue)" where
  "Dequeue q =
     (case index ItemsIndex (items q) 0 of
        Inl e \<Rightarrow> Inl e
      | Inr item \<Rightarrow> Inr (item, True, q\<lparr>items := drop 1 (items q)\<rparr>))"

definition Length :: "IntQueue \<Rightarrow> nat" where
  "Length q = length (items q)"

definition IsEmpty :: "IntQueue \<Rightarrow> bool" where
  "IsEmpty q = (length (items q) = 0)"

subsection \<open>Influence search of removeCalls_optimize\<close>

text \<open>
  \<^verbatim>\<open>p0.Target.InfluenceMatrix[p0.Calls[i].Meta.ID][p0.Calls[k].Meta.ID]\<close>, with the
  index checks of the Go runtime.
\<close>

definition influence :: "8 word list list \<Rightarrow> Call list \<Rightarrow> nat \<Rightarrow> nat \<Rightarrow> error + 8 word" where
  "influence M cs i k =
     (case index CallsIndex cs i of Inl e \<Rightarrow> Inl e | Inr ci \<Rightarrow>
      case index MatrixIndex M (ID (Meta ci)) of Inl e \<Rightarrow> Inl e | Inr row \<Rightarrow>
      case index CallsIndex cs k of Inl e \<Rightarrow> Inl e | Inr ck \<Rightarrow>
      index MatrixIndex row (ID (Meta ck)))"

text \<open>
  The loop \<^verbatim>\<open>for j := id - 1; j >= 0; j--\<close>, over the indices still to visit.  The maps
  \<^verbatim>\<open>queue_map\<close> and \<^verbatim>\<open>influence_map\<close> are \<^verbatim>\<open>map[int]bool\<close>: absent keys read false.
\<close>

fun scan :: "8 word list list \<Rightarrow> Call list \<Rightarrow> (nat \<Rightarrow> bool) \<Rightarrow> nat \<Rightarrow> nat list \<Rightarrow>
    IntQueue \<times> (nat \<Rightarrow> bool) \<Rightarrow> error + (IntQueue \<times> (nat \<Rightarrow> bool))" where
  "scan M cs queue_map ident [] (queue, influence_map) = Inr (queue, influence_map)"
| "scan M cs queue_map ident (j # js) (queue, influence_map) =
     (case influence M cs j ident of
        Inl e \<Rightarrow> Inl e
      | Inr v \<Rightarrow>
          if v = 1
          then scan M cs queue_map ident js
                 (if queue_map j = False then Enqueue queue j else queue,
                  influence_map(j := True))
          else scan M cs queue_map ident js (queue, influence_map))"

lemma scan_items:
  "scan M cs qm ident js (q, im) = Inr (q', im') \<Longrightarrow>
     \<exists>ks. items q' = items q @ ks \<and> set ks \<subseteq> set js \<and>
          sum_list (map (\<lambda>x. (2::nat) ^ x) ks) \<le> sum_list (map (\<lambda>x. 2 ^ x) js)"
proof (induction js arbitrary: q im)
  case Nil
  then show ?case by simp
next
  case (Cons j js)
  from Cons.prems obtain v where v: "influence M cs j ident = Inr v"
    by (auto split: sum.splits)
  show ?case
  proof (cases "v = 1 \<and> qm j = False")
    case True
    with Cons.prems v
    have "scan M cs qm ident js (Enqueue q j, im(j := True)) = Inr (q', im')" by simp
    from Cons.IH[OF this] obtain ks where
      "items q' = items (Enqueue q j) @ ks" "set ks \<subseteq> set js"
      "sum_list (map (\<lambda>x. (2::nat) ^ x) ks) \<le> sum_list (map (\<lambda>x. 2 ^ x) js)" by blast
    then have "items q' = items q @ (j # ks) \<and> set (j # ks) \<subseteq> set (j # js) \<and>
       sum_list (map (\<lambda>x. (2::nat) ^ x) (j # ks)) \<le> sum_list (map (\<lambda>x. 2 ^ x) (j # js))"
      by (auto simp: Enqueue_def)
    then show ?thesis by blast
  next
    case False
    with Cons.prems v
    have "\<exists>im1. scan M cs qm ident js (q, im1) = Inr (q', im')"
      by (auto split: if_splits)
    then obtain im1 where "scan M cs qm ident js (q, im1) = Inr (q', im')" ..
    from Cons.IH[OF this] obtain ks where
      "items q' = items q @ ks" "set ks \<subseteq> set js"
      "sum_list (map (\<lambda>x. (2::nat) ^ x) ks) \<le> sum_list (map (\<lambda>x. 2 ^ x) js)" by blast
    then have "items q' = items q @ ks \<and> set ks \<subseteq> set (j # js) \<and>
       sum_list (map (\<lambda>x. (2::nat) ^ x) ks) \<le> sum_list (map (\<lambda>x. 2 ^ x) (j # js))"
      by auto
    then show ?thesis by blast
  qed
qed

lemma sum_pow2_upt: "sum_list (map (\<lambda>x. (2::nat) ^ x) (rev [0..<n])) < 2 ^ n"
  by (induction n) auto

text \<open>The loop \<^verbatim>\<open>for queue.Length() > 0\<close>.\<close>

function drain :: "8 word list list \<Rightarrow> Call list \<Rightarrow> (nat \<Rightarrow> bool) \<Rightarrow>
    IntQueue \<times> (nat \<Rightarrow> bool) \<Rightarrow> error + (IntQueue \<times> (nat \<Rightarrow> bool))" where
  "drain M cs queue_map (queue, influence_map) =
     (if Length queue > 0
      then (case Dequeue queue of
              Inl e \<Rightarrow> Inl e
            | Inr (ident, ok, queue1) \<Rightarrow>
                (case scan M cs queue_map ident (rev [0..<ident]) (queue1, influence_map) of
                   Inl e \<Rightarrow> Inl e
                 | Inr s \<Rightarrow> drain M cs queue_map s))
      else Inr (queue, influence_map))"
  by pat_completeness auto
termination
proof (relation "measure (\<lambda>(M, cs, qm, q, im). sum_list (map (\<lambda>x. (2::nat) ^ x) (items q)))",
       goal_cases)
  case 1
  then show ?case by simp
next
  case (2 M cs qm queue im x2 ident y ok queue1 s)
  obtain q' im' where s: "s = (q', im')" by (cases s)
  from 2 have q: "items queue = ident # items queue1"
    by (cases "items queue") (auto simp: Dequeue_def index_def Length_def)
  from 2 s obtain ks where ks: "items q' = items queue1 @ ks"
    "sum_list (map (\<lambda>x. (2::nat) ^ x) ks) \<le> sum_list (map (\<lambda>x. 2 ^ x) (rev [0..<ident]))"
    using scan_items[of M cs qm ident "rev [0..<ident]" queue1 im q' im'] by auto
  with sum_pow2_upt[of ident] have "sum_list (map (\<lambda>x. (2::nat) ^ x) ks) < 2 ^ ident" by simp
  with q ks s show ?case by simp
qed

declare drain.simps [simp del]

text \<open>The loop \<^verbatim>\<open>for i := callIndex0 - 1; i >= 0; i--\<close>, with \<open>k = callIndex0\<close>.\<close>

fun seeds :: "8 word list list \<Rightarrow> Call list \<Rightarrow> nat \<Rightarrow> nat list \<Rightarrow>
    IntQueue \<times> (nat \<Rightarrow> bool) \<times> (nat \<Rightarrow> bool) \<Rightarrow>
    error + (IntQueue \<times> (nat \<Rightarrow> bool) \<times> (nat \<Rightarrow> bool))" where
  "seeds M cs k [] s = Inr s"
| "seeds M cs k (i # is) (queue, queue_map, influence_map) =
     (case influence M cs i k of
        Inl e \<Rightarrow> Inl e
      | Inr v \<Rightarrow>
          if v = 1
          then (let queue1 = Enqueue queue i;
                    influence_map1 = influence_map(i := True);
                    queue_map1 = queue_map(i := True)
                in case drain M cs queue_map1 (queue1, influence_map1) of
                     Inl e \<Rightarrow> Inl e
                   | Inr (queue2, influence_map2) \<Rightarrow>
                       seeds M cs k is (queue2, queue_map1, influence_map2))
          else seeds M cs k is (queue, queue_map, influence_map))"

definition remove_post_ids :: "Prog \<Rightarrow> int \<Rightarrow> nat list" where
  "remove_post_ids p0 callIndex0 =
     (if callIndex0 \<ge> 0 \<and> callIndex0 + 2 < int (length (Calls p0))
      then [nat callIndex0 + 1 ..< length (Calls p0)] else [])"

definition remove_front_ids :: "8 word list list \<Rightarrow> Prog \<Rightarrow> int \<Rightarrow> error + nat list" where
  "remove_front_ids M p0 callIndex0 =
     (case seeds M (Calls p0) (nat callIndex0) (rev [0..<nat callIndex0])
             (NewIntQueue, \<lambda>_. False, \<lambda>_. False) of
        Inl e \<Rightarrow> Inl e
      | Inr (queue, queue_map, influence_map) \<Rightarrow>
          Inr [i \<leftarrow> [0..<nat callIndex0]. influence_map i = False])"

subsection \<open>Removal stages of removeCalls_optimize\<close>

text \<open>\<^verbatim>\<open>p.RemoveCall(ids[len(ids)-1-index])\<close> for every index: from back to front.\<close>

definition RemoveCalls :: "Prog \<Rightarrow> nat list \<Rightarrow> Prog" where
  "RemoveCalls p ids = foldl RemoveCall p (rev ids)"

text \<open>The two blocks guarded by \<^verbatim>\<open>Influence_Learning_Enable\<close> around every oracle call.\<close>

definition hash_request :: "'s config \<Rightarrow> Prog \<Rightarrow> Prog" where
  "hash_request cfg p =
     (if Influence_Learning_Enable cfg then p\<lparr>Influence_Hash_NeedUpdate := True\<rparr> else p)"

definition hash_reset :: "'s config \<Rightarrow> Prog \<Rightarrow> Prog" where
  "hash_reset cfg p =
     (if Influence_Learning_Enable cfg
      then p\<lparr>Influence_Hash_NeedUpdate := False, Minimize_ExecuteStatus := False\<rparr> else p)"

definition remove_post :: "'s config \<Rightarrow> 's env \<Rightarrow> Prog \<Rightarrow> int \<Rightarrow> nat list \<Rightarrow>
    error + (Prog \<times> 's env)" where
  "remove_post cfg env p0 callIndex0 ids =
     (if length ids > 0
      then (let p = hash_request cfg (RemoveCalls (Clone p0) ids)
            in case pred cfg env p callIndex0 of
                 Inl e \<Rightarrow> Inl e
               | Inr (ok, p1, env1) \<Rightarrow> Inr (if ok then hash_reset cfg p1 else p0, env1))
      else Inr (p0, env))"

definition remove_front :: "'s config \<Rightarrow> 's env \<Rightarrow> Prog \<Rightarrow> int \<Rightarrow> nat list \<Rightarrow>
    error + (Prog \<times> int \<times> 's env)" where
  "remove_front cfg env p0 callIndex0 ids =
     (if length ids > 0
      then (let p = hash_request cfg (RemoveCalls (Clone p0) ids);
                callIndex = callIndex0 - int (length ids)
            in case pred cfg env p callIndex of
                 Inl e \<Rightarrow> Inl e
               | Inr (ok, p1, env1) \<Rightarrow>
                   Inr (if ok then (hash_reset cfg p1, callIndex, env1)
                        else (p0, callIndex0, env1)))
      else Inr (p0, callIndex0, env))"

text \<open>
  Dynamic influence learning after a rejected removal of call \<open>i\<close>: \<open>p\<close> is the
  rejected program as the oracle left it, \<open>p0\<close> the baseline.
\<close>

definition learn :: "'s config \<Rightarrow> Prog \<Rightarrow> Prog \<Rightarrow> nat \<Rightarrow> bool \<times> 's env \<Rightarrow>
    error + (bool \<times> 's env)" where
  "learn cfg p0 p i s =
     (case s of (influence_update_flag, env) \<Rightarrow>
      if Influence_Learning_Enable cfg \<and> Minimize_ExecuteStatus p \<and>
         i < length (Calls p) \<and> i + 1 < length (Calls p0)
      then (case index CovHashIndex (Minimize_CallsCovHash p) i of Inl e \<Rightarrow> Inl e | Inr h \<Rightarrow>
            case index CovHashIndex (Minimize_CallsCovHash p0) (i + 1) of Inl e \<Rightarrow> Inl e | Inr h0 \<Rightarrow>
            if h \<noteq> h0 \<and> h \<noteq> 0 \<and> h0 \<noteq> 0
            then (case influence (InfluenceMatrix env) (Calls p0) i (i + 1) of
                    Inl e \<Rightarrow> Inl e
                  | Inr v \<Rightarrow>
                      if v = 0
                      then (let M = InfluenceMatrix env;
                                src = ID (Meta (Calls p0 ! i));
                                dst = ID (Meta (Calls p0 ! (i + 1)))
                            in Inr (True, env\<lparr>InfluenceMatrix := M[src := (M ! src)[dst := 1]]\<rparr>))
                      else Inr (influence_update_flag, env))
            else Inr (influence_update_flag, env))
      else Inr (influence_update_flag, env))"

text \<open>The body of the loop \<^verbatim>\<open>for i := len(p0.Calls) - 1; i >= 0; i--\<close>.\<close>

definition remove_one :: "'s config \<Rightarrow> nat \<Rightarrow> Prog \<times> int \<times> bool \<times> 's env \<Rightarrow>
    error + (Prog \<times> int \<times> bool \<times> 's env)" where
  "remove_one cfg i s =
     (case s of (p0, callIndex0, influence_update_flag, env) \<Rightarrow>
      if int i = callIndex0 then Inr s
      else (let callIndex = (if int i < callIndex0 then callIndex0 - 1 else callIndex0);
                p = hash_request cfg (RemoveCall (Clone p0) i)
            in case pred cfg env p callIndex of
                 Inl e \<Rightarrow> Inl e
               | Inr (ok, p1, env1) \<Rightarrow>
                   if \<not> ok
                   then (case learn cfg p0 p1 i (influence_update_flag, env1) of
                           Inl e \<Rightarrow> Inl e
                         | Inr (flag1, env2) \<Rightarrow> Inr (p0, callIndex0, flag1, env2))
                   else Inr (hash_reset cfg p1, callIndex, influence_update_flag, env1)))"

fun pairwise :: "'s config \<Rightarrow> nat list \<Rightarrow> Prog \<times> int \<times> bool \<times> 's env \<Rightarrow>
    error + (Prog \<times> int \<times> bool \<times> 's env)" where
  "pairwise cfg [] s = Inr s"
| "pairwise cfg (i # is) s =
     (case remove_one cfg i s of Inl e \<Rightarrow> Inl e | Inr s1 \<Rightarrow> pairwise cfg is s1)"

definition removeCalls_optimize :: "'s config \<Rightarrow> 's env \<Rightarrow> Prog \<Rightarrow> int \<Rightarrow> bool \<Rightarrow>
    error + (Prog \<times> int \<times> bool \<times> 's env)" where
  "removeCalls_optimize cfg env p0 callIndex0 crash =
     (let post = remove_post_ids p0 callIndex0
      in case remove_front_ids (InfluenceMatrix env) p0 callIndex0 of
           Inl e \<Rightarrow> Inl e
         | Inr front \<Rightarrow>
             (case remove_post cfg env p0 callIndex0 post of
                Inl e \<Rightarrow> Inl e
              | Inr (p1, env1) \<Rightarrow>
                  (case remove_front cfg env1 p1 callIndex0 front of
                     Inl e \<Rightarrow> Inl e
                   | Inr (p2, callIndex2, env2) \<Rightarrow>
                       pairwise cfg (rev [0..<length (Calls p2)])
                         (p2, callIndex2, False, env2))))"

section \<open>Call properties\<close>

definition resetCallProps :: "'s config \<Rightarrow> 's env \<Rightarrow> Prog \<Rightarrow> int \<Rightarrow> error + (Prog \<times> 's env)" where
  "resetCallProps cfg env p0 callIndex0 =
     (let p = (Clone p0)\<lparr>Calls :=
                 map (\<lambda>c. if Props c \<noteq> CallProps0 then c\<lparr>Props := CallProps0\<rparr> else c) (Calls p0)\<rparr>;
          anyDifferent = (\<exists>c \<in> set (Calls p0). Props c \<noteq> CallProps0)
      in if anyDifferent
         then (case pred cfg env p callIndex0 of
                 Inl e \<Rightarrow> Inl e
               | Inr (ok, p1, env1) \<Rightarrow> Inr (if ok then p1 else p0, env1))
         else Inr (p0, env))"

text \<open>One "try to drop" block of \<^verbatim>\<open>minimizeCallProps\<close>: \<open>f\<close> is the assignment to the props.\<close>

definition drop_prop :: "'s config \<Rightarrow> nat \<Rightarrow> int \<Rightarrow> bool \<Rightarrow> (CallProps \<Rightarrow> CallProps) \<Rightarrow>
    Prog \<times> 's env \<Rightarrow> error + (Prog \<times> 's env)" where
  "drop_prop cfg callIndex callIndex0 guard f s =
     (case s of (p0, env) \<Rightarrow>
      if guard
      then (case index CallsIndex (Calls p0) callIndex of
              Inl e \<Rightarrow> Inl e
            | Inr c \<Rightarrow>
                (let p = (Clone p0)\<lparr>Calls := (Calls p0)[callIndex := c\<lparr>Props := f (Props c)\<rparr>]\<rparr>
                 in case pred cfg env p callIndex0 of
                      Inl e \<Rightarrow> Inl e
                    | Inr (ok, p1, env1) \<Rightarrow> Inr (if ok then p1 else p0, env1)))
      else Inr s)"

definition minimizeCallProps :: "'s config \<Rightarrow> 's env \<Rightarrow> Prog \<Rightarrow> nat \<Rightarrow> int \<Rightarrow>
    error + (Prog \<times> 's env)" where
  "minimizeCallProps cfg env p0 callIndex callIndex0 =
     (case index CallsIndex (Calls p0) callIndex of
        Inl e \<Rightarrow> Inl e
      | Inr c \<Rightarrow>
          (let props = Props c
           in case drop_prop cfg callIndex callIndex0 (FailNth props > 0)
                     (\<lambda>q. q\<lparr>FailNth := 0\<rparr>) (p0, env) of
                Inl e \<Rightarrow> Inl e
              | Inr s1 \<Rightarrow>
                  (case drop_prop cfg callIndex callIndex0 (Async props)
                          (\<lambda>q. q\<lparr>Async := False\<rparr>) s1 of
                     Inl e \<Rightarrow> Inl e
                   | Inr s2 \<Rightarrow>
                       drop_prop cfg callIndex callIndex0 (Rerun props > 0)
                         (\<lambda>q. q\<lparr>Rerun := 0\<rparr>) s2)))"

section \<open>Argument-level minimizer\<close>

subsection \<open>Positions in the working program\<close>

text \<open>
  The Go code holds pointers to the arguments it visits and mutates them in place, in
  the working program \<^verbatim>\<open>ctx.p\<close>; the target's hooks and \<^verbatim>\<open>sanitizeFix\<close> mutate that same
  program, and a rejected step puts back only the field it changed.  Here the working
  program is a value, the field \<open>ctx_p\<close> of the context, and a held argument is named by
  its position: the index of the top-level argument in \<^verbatim>\<open>ctx.call.Args\<close>, followed by the
  indices of the children down to it (the pointee of a pointer and the option of a
  union are child 0).  Writing a field of a held argument replaces the node at its
  position in the working program as it is then; the hooks are functions on the
  argument list of a call, so what they do to the working program stays in it.

  An argument is handed to \<^verbatim>\<open>do\<close> and \<^verbatim>\<open>minimize\<close> as the value read at its position at
  the time of the call.  Where the code reads a held argument again after the oracle
  was called (the length of the data in the halving loop, \<^verbatim>\<open>a.Inner\<close> in the loops over
  the elements), the node is read again at the position.  Modelled from the spec: the
  hooks rewrite arguments in place.  If a hook has removed the position or put an
  argument of another kind or type there, the Go pointer names an argument that is no
  longer part of the program; such a read is the value \<open>Detached\<close>, and such a store
  does nothing.
\<close>

definition child :: "Arg \<Rightarrow> nat \<Rightarrow> Arg option" where
  "child a k =
     (case a of
        GroupArg t d xs \<Rightarrow> (if k < length xs then Some (xs ! k) else None)
      | PointerArg t d addr r \<Rightarrow> (if k = 0 then r else None)
      | UnionArg t d x i \<Rightarrow> (if k = 0 then Some x else None)
      | _ \<Rightarrow> None)"

definition set_child :: "Arg \<Rightarrow> nat \<Rightarrow> Arg \<Rightarrow> Arg" where
  "set_child a k x =
     (case a of
        GroupArg t d xs \<Rightarrow> GroupArg t d (xs[k := x])
      | PointerArg t d addr r \<Rightarrow> PointerArg t d addr (Some x)
      | UnionArg t d y i \<Rightarrow> UnionArg t d x i
      | _ \<Rightarrow> a)"

fun get_at :: "Arg \<Rightarrow> nat list \<Rightarrow> Arg option" where
  "get_at a [] = Some a"
| "get_at a (k # ks) = (case child a k of None \<Rightarrow> None | Some c \<Rightarrow> get_at c ks)"

fun put_at :: "Arg \<Rightarrow> nat list \<Rightarrow> Arg \<Rightarrow> Arg" where
  "put_at a [] x = x"
| "put_at a (k # ks) x =
     (case child a k of None \<Rightarrow> a | Some c \<Rightarrow> set_child a k (put_at c ks x))"

text \<open>The node at a position of call \<open>i\<close> of a program, and its replacement.\<close>

definition node :: "Prog \<Rightarrow> nat \<Rightarrow> nat list \<Rightarrow> Arg option" where
  "node p i pos =
     (case pos of
        [] \<Rightarrow> None
      | j # ks \<Rightarrow>
          if i < length (Calls p) \<and> j < length (Args (Calls p ! i))
          then get_at (Args (Calls p ! i) ! j) ks else None)"

definition put_node :: "Prog \<Rightarrow> nat \<Rightarrow> nat list \<Rightarrow> Arg \<Rightarrow> Prog" where
  "put_node p i pos x =
     (case pos of
        [] \<Rightarrow> p
      | j # ks \<Rightarrow>
          if i < length (Calls p) \<and> j < length (Args (Calls p ! i))
          then (let c = Calls p ! i
                in p\<lparr>Calls := (Calls p)[i := c\<lparr>Args := (Args c)[j := put_at (Args c ! j) ks x]\<rparr>]\<rparr>)
          else p)"

subsection \<open>The context\<close>

text \<open>
  \<^verbatim>\<open>minimizeArgsCtx\<close>.  \<open>ctx_p0\<close> is \<^verbatim>\<open>*ctx.p0\<close>, the committed program; \<open>ctx_p\<close> is
  \<^verbatim>\<open>ctx.p\<close>, the working program; \<open>ctx_call\<close> is the position of \<^verbatim>\<open>ctx.call\<close> in \<^verbatim>\<open>ctx.p\<close>.
  \<open>ctx_commits\<close> counts the stores \<^verbatim>\<open>*ctx.p0 = ctx.p\<close> and \<open>ctx_cloned\<close> is its value when
  \<^verbatim>\<open>ctx.p\<close> was cloned: the pointers \<^verbatim>\<open>*ctx.p0\<close> and \<^verbatim>\<open>ctx.p\<close> are equal exactly when the
  two counters differ.  After a store every path of the code returns true without
  another store to \<^verbatim>\<open>ctx.p\<close>, and \<^verbatim>\<open>ctx.p\<close> is cloned anew.
\<close>

record 's minimizeArgsCtx =
  ctx_p0 :: Prog
  ctx_p :: Prog
  ctx_call :: nat
  ctx_callIndex0 :: int
  ctx_crash :: bool
  ctx_triedPaths :: "string set"
  ctx_env :: "'s env"
  ctx_commits :: nat
  ctx_cloned :: nat

text \<open>
  The two files differ in the argument-level code at three places: the third argument
  of \<^verbatim>\<open>pred\<close>, the two panics of \<^verbatim>\<open>do\<close> and the whole-array step.
\<close>

datatype source_file = minimization_go | part_000

text \<open>\<^verbatim>\<open>ctx.pred(ctx.p, ctx.callIndex0)\<close> and \<^verbatim>\<open>ctx.pred(ctx.p, ctx.callIndex0, 2)\<close>: the
  working program is what \<^verbatim>\<open>sanitizeFix\<close> and the oracle leave.\<close>

definition ctx_pred :: "source_file \<Rightarrow> 's config \<Rightarrow> 's minimizeArgsCtx \<Rightarrow>
    error + (bool \<times> 's minimizeArgsCtx)" where
  "ctx_pred f cfg ctx =
     (case (case f of
              minimization_go \<Rightarrow> pred cfg (ctx_env ctx) (ctx_p ctx) (ctx_callIndex0 ctx)
            | part_000 \<Rightarrow> pred_typed cfg (ctx_env ctx) (ctx_p ctx) (ctx_callIndex0 ctx) 2) of
        Inl e \<Rightarrow> Inl e
      | Inr (ok, p1, env1) \<Rightarrow> Inr (ok, ctx\<lparr>ctx_p := p1, ctx_env := env1\<rparr>))"

text \<open>\<^verbatim>\<open>*ctx.p0 = ctx.p\<close>\<close>

definition commit :: "'s minimizeArgsCtx \<Rightarrow> 's minimizeArgsCtx" where
  "commit ctx = ctx\<lparr>ctx_p0 := ctx_p ctx, ctx_commits := Suc (ctx_commits ctx)\<rparr>"

text \<open>\<^verbatim>\<open>if ctx.pred(ctx.p, ctx.callIndex0) { *ctx.p0 = ctx.p }\<close>\<close>

definition try_commit :: "source_file \<Rightarrow> 's config \<Rightarrow> 's minimizeArgsCtx \<Rightarrow>
    error + 's minimizeArgsCtx" where
  "try_commit f cfg ctx =
     (case ctx_pred f cfg ctx of
        Inl e \<Rightarrow> Inl e
      | Inr (ok, ctx1) \<Rightarrow> Inr (if ok then commit ctx1 else ctx1))"

definition tried :: "string \<Rightarrow> 's minimizeArgsCtx \<Rightarrow> 's minimizeArgsCtx" where
  "tried path ctx = ctx\<lparr>ctx_triedPaths := insert path (ctx_triedPaths ctx)\<rparr>"

text \<open>Reading the held argument, and writing it.\<close>

definition held :: "'s minimizeArgsCtx \<Rightarrow> nat list \<Rightarrow> Arg option" where
  "held ctx pos = node (ctx_p ctx) (ctx_call ctx) pos"

definition store :: "nat list \<Rightarrow> Arg \<Rightarrow> 's minimizeArgsCtx \<Rightarrow> 's minimizeArgsCtx" where
  "store pos x ctx = ctx\<lparr>ctx_p := put_node (ctx_p ctx) (ctx_call ctx) pos x\<rparr>"

text \<open>\<^verbatim>\<open>ctx.target.assignSizesCall(ctx.call)\<close> on the working program.\<close>

definition assignSizes :: "'s config \<Rightarrow> nat \<Rightarrow> Prog \<Rightarrow> Prog" where
  "assignSizes cfg ci p =
     (let c = Calls p ! ci
      in p\<lparr>Calls := (Calls p)[ci := c\<lparr>Args := assignSizesCall cfg (Meta c) (Args c)\<rparr>]\<rparr>)"

definition assign :: "'s config \<Rightarrow> 's minimizeArgsCtx \<Rightarrow> 's minimizeArgsCtx" where
  "assign cfg ctx = ctx\<lparr>ctx_p := assignSizes cfg (ctx_call ctx) (ctx_p ctx)\<rparr>"

text \<open>\<^verbatim>\<open>removeArg(arg)\<close> on the working program.\<close>

definition remove :: "Arg \<Rightarrow> 's minimizeArgsCtx \<Rightarrow> 's minimizeArgsCtx" where
  "remove a ctx = ctx\<lparr>ctx_p := removeArg a (ctx_p ctx)\<rparr>"

text \<open>\<^verbatim>\<open>fmt.Sprintf("%v", i)\<close> for an index.\<close>

fun show_nat :: "nat \<Rightarrow> string" where
  "show_nat n = (if n < 10 then [''0123456789'' ! n]
                 else show_nat (n div 10) @ [''0123456789'' ! (n mod 10)])"

declare show_nat.simps [simp del]

subsection \<open>Integers, flags, resources\<close>

definition DefaultArg_Val :: "Type \<Rightarrow> 64 word option" where
  "DefaultArg_Val t =
     (case t of IntType v \<Rightarrow> Some v | FlagsType v \<Rightarrow> Some v | ProcType opt v \<Rightarrow> Some v
      | _ \<Rightarrow> None)"

text \<open>\<^verbatim>\<open>a.Val = v0\<close> on the held argument.\<close>

definition set_Val :: "nat list \<Rightarrow> 64 word \<Rightarrow> 's minimizeArgsCtx \<Rightarrow> 's minimizeArgsCtx" where
  "set_Val pos v ctx =
     (case held ctx pos of
        Some (ConstArg t d v') \<Rightarrow> store pos (ConstArg t d v) ctx
      | _ \<Rightarrow> ctx)"

text \<open>\<^verbatim>\<open>patched := ctx.call.setDefaultConditions(ctx.p.Target)\<close>\<close>

definition patch :: "'s config \<Rightarrow> 's minimizeArgsCtx \<Rightarrow> 's minimizeArgsCtx \<times> bool" where
  "patch cfg ctx =
     (let p = ctx_p ctx;
          c = Calls p ! ctx_call ctx;
          r = setDefaultConditions cfg (Meta c) (Args c)
      in (ctx\<lparr>ctx_p := p\<lparr>Calls := (Calls p)[ctx_call ctx := c\<lparr>Args := fst r\<rparr>]\<rparr>\<rparr>, snd r))"

definition minimizeInt :: "source_file \<Rightarrow> 's config \<Rightarrow> nat list \<Rightarrow> Arg \<Rightarrow> string \<Rightarrow>
    's minimizeArgsCtx \<Rightarrow> error + (bool \<times> 's minimizeArgsCtx)" where
  "minimizeInt f cfg pos arg path ctx =
     (if ctx_crash ctx then Inr (False, ctx)
      else (case arg of
          ConstArg t d v0 \<Rightarrow>
            (case DefaultArg_Val t of
               None \<Rightarrow> Inl TypeAssertion
             | Some dv \<Rightarrow>
                 if v0 = dv then Inr (False, ctx)
                 else (case patch cfg (store pos (ConstArg t d dv) ctx) of
                         (ctx1, patched) \<Rightarrow>
                           (case ctx_pred f cfg ctx1 of
                              Inl e \<Rightarrow> Inl e
                            | Inr (ok, ctx2) \<Rightarrow>
                                if ok then Inr (True, tried path (commit ctx2))
                                else if patched then Inr (True, tried path (set_Val pos v0 ctx2))
                                else Inr (False, set_Val pos v0 ctx2))))
        | _ \<Rightarrow> Inl TypeAssertion))"

text \<open>\<^verbatim>\<open>a.Res, a.Val = r0, 0\<close> on the held argument.\<close>

definition set_Res :: "nat list \<Rightarrow> nat option \<Rightarrow> 64 word \<Rightarrow> 's minimizeArgsCtx \<Rightarrow>
    's minimizeArgsCtx" where
  "set_Res pos r v ctx =
     (case held ctx pos of
        Some (ResultArg t d n r' v') \<Rightarrow> store pos (ResultArg t d n r v) ctx
      | _ \<Rightarrow> ctx)"

definition ResourceType_minimize :: "source_file \<Rightarrow> 's config \<Rightarrow> nat list \<Rightarrow> Arg \<Rightarrow> string \<Rightarrow>
    's minimizeArgsCtx \<Rightarrow> error + (bool \<times> 's minimizeArgsCtx)" where
  "ResourceType_minimize f cfg pos arg path ctx =
     (if ctx_crash ctx then Inr (False, ctx)
      else (case arg of
          ResultArg t d n res v \<Rightarrow>
            (case res of
               None \<Rightarrow> Inr (False, ctx)
             | Some r0 \<Rightarrow>
                 (case ctx_pred f cfg (store pos (ResultArg t d n None (type_Default t)) ctx) of
                    Inl e \<Rightarrow> Inl e
                  | Inr (ok, ctx1) \<Rightarrow>
                      Inr (True, tried path
                             (if ok then commit ctx1 else set_Res pos (Some r0) 0 ctx1))))
        | _ \<Rightarrow> Inl TypeAssertion))"

subsection \<open>Buffers\<close>

text \<open>\<^verbatim>\<open>a.Data()\<close> of the held argument, and \<^verbatim>\<open>a.data = ...\<close>.\<close>

definition Data :: "'s minimizeArgsCtx \<Rightarrow> nat list \<Rightarrow> 8 word list option" where
  "Data ctx pos = (case held ctx pos of Some (DataArg t d bs) \<Rightarrow> Some bs | _ \<Rightarrow> None)"

definition set_data :: "nat list \<Rightarrow> 8 word list \<Rightarrow> 's minimizeArgsCtx \<Rightarrow> 's minimizeArgsCtx" where
  "set_data pos bs ctx =
     (case held ctx pos of
        Some (DataArg t d bs') \<Rightarrow> store pos (DataArg t d bs) ctx
      | _ \<Rightarrow> ctx)"

text \<open>
  Go's \<^verbatim>\<open>int\<close> is 64 bits wide: \<^verbatim>\<open>int(typ.RangeBegin)\<close> is the signed reading of the
  unsigned value, and a difference wraps around.
\<close>

definition int64 :: "int \<Rightarrow> int" where
  "int64 x = sint (word_of_int x :: 64 word)"

text \<open>
  The halving loop of \<^verbatim>\<open>BufferType.minimize\<close>.  The fuel bounds the number of rounds
  (an accepted cut keeps the step, and what the hooks do to the data is not bounded);
  \<open>None\<close> is a run that has not ended within it.  \<open>backing\<close> is the data at the entry of
  the loop: cutting and restoring re-slice one array, so
  \<^verbatim>\<open>a.Data()[:len(a.Data())+step]\<close> is the data followed by the next \<open>step\<close> bytes of that
  array; the capacity of the slice is taken to be its length at entry.  A slice
  expression with a negative bound or a bound above the capacity panics.
\<close>

fun blob_loop :: "nat \<Rightarrow> source_file \<Rightarrow> 's config \<Rightarrow> nat list \<Rightarrow> 8 word list \<Rightarrow> int \<Rightarrow> int \<Rightarrow>
    's minimizeArgsCtx \<Rightarrow> (error + 's minimizeArgsCtx) option" where
  "blob_loop 0 f cfg pos backing minLen step ctx = None"
| "blob_loop (Suc fuel) f cfg pos backing minLen step ctx =
     (case Data ctx pos of
        None \<Rightarrow> Some (Inl Detached)
      | Some cur \<Rightarrow>
          if int (length cur) > minLen \<and> step > 0
          then (if int (length cur) - step \<ge> minLen
                then (if int (length cur) - step < 0 then Some (Inl SliceBounds)
                      else (case ctx_pred f cfg
                                   (assign cfg (set_data pos (take (nat (int (length cur) - step)) cur) ctx)) of
                              Inl e \<Rightarrow> Some (Inl e)
                            | Inr (ok, ctx1) \<Rightarrow>
                                if ok then blob_loop fuel f cfg pos backing minLen step ctx1
                                else (case Data ctx1 pos of
                                        None \<Rightarrow> Some (Inl Detached)
                                      | Some cur1 \<Rightarrow>
                                          if int (length cur1) + step > int (length backing)
                                          then Some (Inl SliceBounds)
                                          else (let ctx2 = assign cfg
                                                      (set_data pos
                                                         (cur1 @ take (nat step) (drop (length cur1) backing))
                                                         ctx1)
                                                in if ctx_crash ctx2 then Some (Inr ctx2)
                                                   else blob_loop fuel f cfg pos backing minLen
                                                          (step div 2) ctx2))))
                else if ctx_crash ctx then Some (Inr ctx)
                else blob_loop fuel f cfg pos backing minLen (step div 2) ctx)
          else Some (Inr ctx))"

text \<open>\<^verbatim>\<open>bytes.TrimRight(data, cutset)\<close>\<close>

definition TrimRight :: "8 word list \<Rightarrow> 8 word list \<Rightarrow> 8 word list" where
  "TrimRight bs cutset = rev (dropWhile (\<lambda>b. b \<in> set cutset) (rev bs))"

definition BufferType_minimize :: "nat \<Rightarrow> source_file \<Rightarrow> 's config \<Rightarrow> BufferKind \<Rightarrow> 64 word \<Rightarrow>
    bool \<Rightarrow> bool \<Rightarrow> nat list \<Rightarrow> Arg \<Rightarrow> string \<Rightarrow> 's minimizeArgsCtx \<Rightarrow>
    (error + (bool \<times> 's minimizeArgsCtx)) option" where
  "BufferType_minimize fuel f cfg kind rangeBegin varlen noZ pos arg path ctx =
     (if arg_Dir arg = DirOut then Some (Inr (False, ctx))
      else if kind = BufferCompressed then Some (Inl MinimizingNoMinimize)
      else (case arg of
          DataArg t d bs \<Rightarrow>
            if kind = BufferBlobRand \<or> kind = BufferBlobRange
            then (let len0 = int (length bs);
                      minLen = sint rangeBegin
                  in case blob_loop fuel f cfg pos bs minLen (int64 (len0 - minLen)) ctx of
                       None \<Rightarrow> None
                     | Some (Inl e) \<Rightarrow> Some (Inl e)
                     | Some (Inr ctx1) \<Rightarrow>
                         (case Data ctx1 pos of
                            None \<Rightarrow> Some (Inl Detached)
                          | Some cur \<Rightarrow>
                              if int (length cur) \<noteq> len0
                              then Some (Inr (True, tried path (commit ctx1)))
                              else Some (Inr (False, ctx1))))
            else if kind = BufferFilename
            then (if \<not> varlen then Some (Inr (False, ctx))
                  else (let bs1 = TrimRight bs (specialFileLenPad cfg @ [0]);
                            bs2 = (if \<not> noZ then bs1 @ [0] else bs1)
                        in if bs2 = bs then Some (Inr (False, ctx))
                           else (case try_commit f cfg (assign cfg (set_data pos bs2 ctx)) of
                                   Inl e \<Rightarrow> Some (Inl e)
                                 | Inr ctx1 \<Rightarrow> Some (Inr (True, tried path ctx1)))))
            else Some (Inr (False, ctx))
        | _ \<Rightarrow> Some (Inl TypeAssertion)))"

subsection \<open>The visit of an argument tree\<close>

text \<open>
  \<^verbatim>\<open>ctx.do\<close> and the \<^verbatim>\<open>minimize\<close> methods of the types that recurse.  The visit goes down
  the working program as it is then, which the hooks may have changed, so the
  recursion is bounded by fuel: one unit for every \<^verbatim>\<open>do\<close> below another, \<open>None\<close> when it
  is used up.  \<open>StructType_fields\<close> is the loop of \<^verbatim>\<open>StructType.minimize\<close> (field \<open>i\<close>, with
  \<open>m\<close> fields still to visit: \<^verbatim>\<open>range a.Inner\<close> fixes the number of rounds at the entry);
  \<open>ArrayType_elems\<close> is the loop \<^verbatim>\<open>for i := len(a.Inner) - 1; i >= 0; i--\<close> of
  \<^verbatim>\<open>ArrayType.minimize\<close>, its argument \<open>Suc i\<close> in the round of element \<open>i\<close>.  \<open>typ\<close> is the
  receiver, the type of the argument at the entry.
\<close>

function do :: "nat \<Rightarrow> source_file \<Rightarrow> 's config \<Rightarrow> nat list \<Rightarrow> Arg \<Rightarrow> string \<Rightarrow> string \<Rightarrow>
    's minimizeArgsCtx \<Rightarrow> (error + (bool \<times> 's minimizeArgsCtx)) option"
and minimize :: "nat \<Rightarrow> source_file \<Rightarrow> 's config \<Rightarrow> nat list \<Rightarrow> Arg \<Rightarrow> string \<Rightarrow>
    's minimizeArgsCtx \<Rightarrow> (error + (bool \<times> 's minimizeArgsCtx)) option"
and StructType_fields :: "nat \<Rightarrow> source_file \<Rightarrow> 's config \<Rightarrow> nat list \<Rightarrow> Type \<Rightarrow> string list \<Rightarrow>
    nat \<Rightarrow> nat \<Rightarrow> string \<Rightarrow> 's minimizeArgsCtx \<Rightarrow> (error + (bool \<times> 's minimizeArgsCtx)) option"
and ArrayType_elems :: "nat \<Rightarrow> source_file \<Rightarrow> 's config \<Rightarrow> nat list \<Rightarrow> Type \<Rightarrow> nat \<Rightarrow> string \<Rightarrow>
    's minimizeArgsCtx \<Rightarrow> (error + (bool \<times> 's minimizeArgsCtx)) option"
where
  "do 0 f cfg pos arg field path ctx = None"
| "do (Suc fuel) f cfg pos arg field path ctx =
     (let path1 = path @ ''-'' @ field
      in if path1 \<in> ctx_triedPaths ctx then Some (Inr (False, ctx))
         else (case minimize fuel f cfg pos arg path1 ctx of
                 None \<Rightarrow> None
               | Some (Inl e) \<Rightarrow> Some (Inl e)
               | Some (Inr (b, ctx1)) \<Rightarrow>
                   if b then Some (Inr (True, ctx1))
                   else if f = minimization_go \<and> ctx_commits ctx1 \<noteq> ctx_cloned ctx1
                   then Some (Inl SharedProgramCommitted)
                   else if f = minimization_go \<and> ctx_commits ctx1 \<noteq> ctx_commits ctx
                   then Some (Inl StaleProgram)
                   else Some (Inr (False, tried path1 ctx1))))"
| "minimize fuel f cfg pos arg path ctx =
     (case arg_Type arg of
        TypeCommon \<Rightarrow> Some (Inr (False, ctx))
      | IntType dv \<Rightarrow> Some (minimizeInt f cfg pos arg path ctx)
      | FlagsType dv \<Rightarrow> Some (minimizeInt f cfg pos arg path ctx)
      | ProcType optional dv \<Rightarrow>
          if \<not> optional then Some (Inr (False, ctx)) else Some (minimizeInt f cfg pos arg path ctx)
      | ResourceType dv \<Rightarrow> Some (ResourceType_minimize f cfg pos arg path ctx)
      | BufferType kind rangeBegin varlen noZ \<Rightarrow>
          BufferType_minimize fuel f cfg kind rangeBegin varlen noZ pos arg path ctx
      | StructType fnames \<Rightarrow>
          (case arg of
             GroupArg t d inner \<Rightarrow> StructType_fields fuel f cfg pos t fnames 0 (length inner) path ctx
           | _ \<Rightarrow> Some (Inl TypeAssertion))
      | UnionType fnames \<Rightarrow>
          (case arg of
             UnionArg t d opt idx \<Rightarrow>
               (case index FieldsIndex fnames idx of
                  Inl e \<Rightarrow> Some (Inl e)
                | Inr name \<Rightarrow> do fuel f cfg (pos @ [0]) opt name path ctx)
           | _ \<Rightarrow> Some (Inl TypeAssertion))
      | PtrType \<Rightarrow>
          (case arg of
             PointerArg t d addr res \<Rightarrow>
               (case res of
                  None \<Rightarrow> Some (Inr (False, ctx))
                | Some r \<Rightarrow>
                    if path @ ''>'' \<notin> ctx_triedPaths ctx
                    then (case try_commit f cfg
                                 (assign cfg (store pos (PointerArg t d 0 None) (remove r ctx))) of
                            Inl e \<Rightarrow> Some (Inl e)
                          | Inr ctx1 \<Rightarrow> Some (Inr (True, tried (path @ ''>'') ctx1)))
                    else do fuel f cfg (pos @ [0]) r [] path ctx)
           | _ \<Rightarrow> Some (Inl TypeAssertion))
      | ArrayType kind rangeBegin rangeEnd \<Rightarrow>
          (case arg of
             GroupArg t d inner \<Rightarrow>
               if f = part_000 \<and> length inner \<ge> 3 \<and> rangeBegin = 0 \<and>
                  path @ ''-all'' \<notin> ctx_triedPaths ctx
               then (case try_commit f cfg
                            (assign cfg (store pos (GroupArg t d [])
                               (fold remove inner (tried (path @ ''-all'') ctx)))) of
                       Inl e \<Rightarrow> Some (Inl e)
                     | Inr ctx1 \<Rightarrow> Some (Inr (True, ctx1)))
               else ArrayType_elems fuel f cfg pos t (length inner) path ctx
           | _ \<Rightarrow> Some (Inl TypeAssertion)))"
| "StructType_fields fuel f cfg pos typ fnames i 0 path ctx = Some (Inr (False, ctx))"
| "StructType_fields fuel f cfg pos typ fnames i (Suc m) path ctx =
     (case held ctx pos of
        Some (GroupArg t d inner) \<Rightarrow>
          (case (if t = typ then index Detached inner i else Inl Detached) of
             Inl e \<Rightarrow> Some (Inl e)
           | Inr innerArg \<Rightarrow>
               (case index FieldsIndex fnames i of
                  Inl e \<Rightarrow> Some (Inl e)
                | Inr name \<Rightarrow>
                    (case do fuel f cfg (pos @ [i]) innerArg name path ctx of
                       None \<Rightarrow> None
                     | Some (Inl e) \<Rightarrow> Some (Inl e)
                     | Some (Inr (b, ctx1)) \<Rightarrow>
                         if b then Some (Inr (True, ctx1))
                         else StructType_fields fuel f cfg pos typ fnames (Suc i) m path ctx1)))
      | _ \<Rightarrow> Some (Inl Detached))"
| "ArrayType_elems fuel f cfg pos typ 0 path ctx = Some (Inr (False, ctx))"
| "ArrayType_elems fuel f cfg pos typ (Suc i) path ctx =
     (case held ctx pos of
        Some (GroupArg t d inner) \<Rightarrow>
          (case (if t = typ then index InnerIndex inner i else Inl Detached) of
             Inl e \<Rightarrow> Some (Inl e)
           | Inr elem \<Rightarrow>
               (let elemPath = path @ ''-'' @ show_nat i
                in if \<not> ctx_crash ctx \<and> elemPath \<notin> ctx_triedPaths ctx \<and>
                      (case typ of
                         ArrayType kind rangeBegin rangeEnd \<Rightarrow>
                           kind = ArrayRandLen \<or>
                           kind = ArrayRangeLen \<and> unat rangeBegin < length inner
                       | _ \<Rightarrow> False)
                   then (case try_commit f cfg
                                (assign cfg (remove elem
                                   (store pos (GroupArg t d (take i inner @ drop (Suc i) inner))
                                      (tried elemPath ctx)))) of
                           Inl e \<Rightarrow> Some (Inl e)
                         | Inr ctx1 \<Rightarrow> Some (Inr (True, ctx1)))
                   else (case do fuel f cfg (pos @ [i]) elem [] elemPath ctx of
                           None \<Rightarrow> None
                         | Some (Inl e) \<Rightarrow> Some (Inl e)
                         | Some (Inr (b, ctx1)) \<Rightarrow>
                             if b then Some (Inr (True, ctx1))
                             else ArrayType_elems fuel f cfg pos typ i path ctx1)))
      | _ \<Rightarrow> Some (Inl Detached))"
  by pat_completeness auto
termination
  by (relation "measures [\<lambda>x. case x of
          Inl (Inl (fuel, f, cfg, pos, arg, field, path, ctx)) \<Rightarrow> 3 * fuel
        | Inl (Inr (fuel, f, cfg, pos, arg, path, ctx)) \<Rightarrow> 3 * fuel + 2
        | Inr (Inl (fuel, f, cfg, pos, typ, fnames, i, m, path, ctx)) \<Rightarrow> 3 * fuel + 1
        | Inr (Inr (fuel, f, cfg, pos, typ, i, path, ctx)) \<Rightarrow> 3 * fuel + 1,
      \<lambda>x. case x of
          Inl (Inl (fuel, f, cfg, pos, arg, field, path, ctx)) \<Rightarrow> 0
        | Inl (Inr (fuel, f, cfg, pos, arg, path, ctx)) \<Rightarrow> 0
        | Inr (Inl (fuel, f, cfg, pos, typ, fnames, i, m, path, ctx)) \<Rightarrow> m
        | Inr (Inr (fuel, f, cfg, pos, typ, i, path, ctx)) \<Rightarrow> i]")
     auto

declare do.simps [simp del] minimize.simps [simp del]

section \<open>Minimize\<close>

text \<open>
  The loop \<^verbatim>\<open>for j, field := range ctx.call.Meta.Args\<close>; the result \<open>True\<close> is
  \<^verbatim>\<open>goto again\<close>.  \<^verbatim>\<open>ctx.call.Args[j]\<close> is read in the working program as it is then.
\<close>

fun args_loop :: "nat \<Rightarrow> source_file \<Rightarrow> 's config \<Rightarrow> string list \<Rightarrow> nat \<Rightarrow> 's minimizeArgsCtx \<Rightarrow>
    (error + (bool \<times> 's minimizeArgsCtx)) option" where
  "args_loop fuel f cfg [] j ctx = Some (Inr (False, ctx))"
| "args_loop fuel f cfg (field # rest) j ctx =
     (case index ArgsIndex (Args (Calls (ctx_p ctx) ! ctx_call ctx)) j of
        Inl e \<Rightarrow> Some (Inl e)
      | Inr a \<Rightarrow>
          (case do fuel f cfg [j] a field [] ctx of
             None \<Rightarrow> None
           | Some (Inl e) \<Rightarrow> Some (Inl e)
           | Some (Inr (b, ctx1)) \<Rightarrow>
               if b then Some (Inr (True, ctx1)) else args_loop fuel f cfg rest (Suc j) ctx1))"

text \<open>
  The label \<^verbatim>\<open>again\<close>: clone, visit the arguments, start anew after every \<^verbatim>\<open>true\<close>.
  The fuel bounds the number of clones, and the depth of every visit.
\<close>

fun again :: "nat \<Rightarrow> source_file \<Rightarrow> 's config \<Rightarrow> 's minimizeArgsCtx \<Rightarrow>
    (error + 's minimizeArgsCtx) option" where
  "again 0 f cfg ctx = None"
| "again (Suc fuel) f cfg ctx =
     (let ctx0 = ctx\<lparr>ctx_p := Clone (ctx_p0 ctx), ctx_cloned := ctx_commits ctx\<rparr>
      in case index CallsIndex (Calls (ctx_p ctx0)) (ctx_call ctx0) of
           Inl e \<Rightarrow> Some (Inl e)
         | Inr c \<Rightarrow>
             (case args_loop fuel f cfg (ArgNames (Meta c)) 0 ctx0 of
                None \<Rightarrow> None
              | Some (Inl e) \<Rightarrow> Some (Inl e)
              | Some (Inr (b, ctx1)) \<Rightarrow> if b then again fuel f cfg ctx1 else Some (Inr ctx1)))"

text \<open>
  The loop \<^verbatim>\<open>for i := 0; i < len(p0.Calls); i++\<close> of \<^verbatim>\<open>Minimize\<close>; in \<^verbatim>\<open>part_000\<close> the call
  of \<^verbatim>\<open>minimizeCallProps\<close> is commented out.
\<close>

fun calls_loop :: "nat \<Rightarrow> source_file \<Rightarrow> 's config \<Rightarrow> int \<Rightarrow> bool \<Rightarrow> nat \<Rightarrow> Prog \<times> 's env \<Rightarrow>
    (error + (Prog \<times> 's env)) option" where
  "calls_loop 0 f cfg callIndex0 crash i s = None"
| "calls_loop (Suc fuel) f cfg callIndex0 crash i s =
     (case s of (p0, env) \<Rightarrow>
      if i < length (Calls p0)
      then (if NoMinimize (Meta (Calls p0 ! i))
            then calls_loop fuel f cfg callIndex0 crash (Suc i) s
            else (case again fuel f cfg
                         \<lparr>ctx_p0 = p0, ctx_p = p0, ctx_call = i, ctx_callIndex0 = callIndex0,
                          ctx_crash = crash, ctx_triedPaths = {}, ctx_env = env,
                          ctx_commits = 0, ctx_cloned = 0\<rparr> of
                    None \<Rightarrow> None
                  | Some (Inl e) \<Rightarrow> Some (Inl e)
                  | Some (Inr ctx1) \<Rightarrow>
                      (case (case f of
                               minimization_go \<Rightarrow>
                                 minimizeCallProps cfg (ctx_env ctx1) (ctx_p0 ctx1) i callIndex0
                             | part_000 \<Rightarrow> Inr (ctx_p0 ctx1, ctx_env ctx1)) of
                         Inl e \<Rightarrow> Some (Inl e)
                       | Inr s1 \<Rightarrow> calls_loop fuel f cfg callIndex0 crash (Suc i) s1)))
      else Some (Inr s))"

text \<open>
  \<^verbatim>\<open>Minimize\<close> of \<^verbatim>\<open>minimization.go\<close> returns the program, the call index and
  \<^verbatim>\<open>influence_update_flag\<close>; the state it leaves (the matrix it wrote to, the oracle) is
  returned with them.
\<close>

definition Minimize :: "nat \<Rightarrow> 's config \<Rightarrow> 's env \<Rightarrow> Prog \<Rightarrow> int \<Rightarrow> bool \<Rightarrow>
    (error + (Prog \<times> int \<times> bool \<times> 's env)) option" where
  "Minimize fuel cfg env p0 callIndex0 crash =
     (if callIndex0 \<noteq> -1 \<and> (callIndex0 < 0 \<or> callIndex0 \<ge> int (length (Calls p0)))
      then Some (Inl BadCallIndex)
      else (let name0 = (if callIndex0 \<noteq> -1 then Name (Meta (Calls p0 ! nat callIndex0)) else [])
            in case removeCalls_optimize cfg env p0 callIndex0 crash of
                 Inl e \<Rightarrow> Some (Inl e)
               | Inr (p1, callIndex1, influence_update_flag, env1) \<Rightarrow>
                   (case resetCallProps cfg env1 p1 callIndex1 of
                      Inl e \<Rightarrow> Some (Inl e)
                    | Inr s2 \<Rightarrow>
                        (case calls_loop fuel minimization_go cfg callIndex1 crash 0 s2 of
                           None \<Rightarrow> None
                         | Some (Inl e) \<Rightarrow> Some (Inl e)
                         | Some (Inr (p3, env3)) \<Rightarrow>
                             if callIndex1 \<noteq> -1 \<and>
                                (callIndex1 < 0 \<or> callIndex1 \<ge> int (length (Calls p3)) \<or>
                                 name0 \<noteq> Name (Meta (Calls p3 ! nat callIndex1)))
                             then Some (Inl BadCallIndexAfter)
                             else Some (Inr (p3, callIndex1, influence_update_flag, env3))))))"

section \<open>The file part_000\<close>

subsection \<open>Related calls\<close>

text \<open>
  \<^verbatim>\<open>uses(call)\<close>: the keys of the map are result arguments (by identity) and file names.
  Modelled from the spec: \<^verbatim>\<open>ForeachArg\<close> visits the return value of the call and its
  arguments, each with all its sub-arguments; the field \<^verbatim>\<open>uses\<close> of a result argument
  holds the result arguments of the program that name it as their producer.
\<close>

datatype used_key = UsedResult nat | UsedFile "8 word list"

fun results_of :: "Arg \<Rightarrow> (nat \<times> nat option) list" where
  "results_of (ConstArg t d v) = []"
| "results_of (PointerArg t d a r) = (case r of None \<Rightarrow> [] | Some x \<Rightarrow> results_of x)"
| "results_of (GroupArg t d xs) = concat (map results_of xs)"
| "results_of (UnionArg t d x i) = results_of x"
| "results_of (DataArg t d bs) = []"
| "results_of (ResultArg t d n r v) = [(n, r)]"

definition prog_results :: "Prog \<Rightarrow> (nat \<times> nat option) list" where
  "prog_results p =
     concat (map (\<lambda>c. (case Ret c of None \<Rightarrow> [] | Some r \<Rightarrow> results_of r) @
                       concat (map results_of (Args c))) (Calls p))"

definition users :: "Prog \<Rightarrow> nat \<Rightarrow> nat list" where
  "users p n = map fst (filter (\<lambda>(m, r). r = Some n) (prog_results p))"

fun collect :: "(error + 'a list) list \<Rightarrow> error + 'a list" where
  "collect [] = Inr []"
| "collect (x # xs) =
     (case x of
        Inl e \<Rightarrow> Inl e
      | Inr us \<Rightarrow> (case collect xs of Inl e \<Rightarrow> Inl e | Inr vs \<Rightarrow> Inr (us @ vs)))"

text \<open>The callback of \<^verbatim>\<open>uses\<close> on one argument, with its two type assertions.\<close>

definition uses_here :: "Prog \<Rightarrow> Arg \<Rightarrow> error + used_key list" where
  "uses_here p arg =
     (case arg_Type arg of
        ResourceType dv \<Rightarrow>
          (case arg of
             ResultArg t d n r v \<Rightarrow>
               Inr (UsedResult n # (case r of None \<Rightarrow> [] | Some m \<Rightarrow> [UsedResult m]) @
                    map UsedResult (users p n))
           | _ \<Rightarrow> Inl TypeAssertion)
      | BufferType kind rb varlen noZ \<Rightarrow>
          (case arg of
             DataArg t d bs \<Rightarrow>
               if d \<noteq> DirOut \<and> kind = BufferFilename then Inr [UsedFile (TrimRight bs [0])]
               else Inr []
           | _ \<Rightarrow> Inl TypeAssertion)
      | _ \<Rightarrow> Inr [])"

fun arg_uses :: "Prog \<Rightarrow> Arg \<Rightarrow> error + used_key list" where
  "arg_uses p (PointerArg t d a r) =
     collect [uses_here p (PointerArg t d a r),
              (case r of None \<Rightarrow> Inr [] | Some x \<Rightarrow> arg_uses p x)]"
| "arg_uses p (GroupArg t d xs) =
     collect (uses_here p (GroupArg t d xs) # map (arg_uses p) xs)"
| "arg_uses p (UnionArg t d x i) = collect [uses_here p (UnionArg t d x i), arg_uses p x]"
| "arg_uses p (ConstArg t d v) = uses_here p (ConstArg t d v)"
| "arg_uses p (DataArg t d bs) = uses_here p (DataArg t d bs)"
| "arg_uses p (ResultArg t d n r v) = uses_here p (ResultArg t d n r v)"

definition uses :: "Prog \<Rightarrow> Call \<Rightarrow> error + used_key list" where
  "uses p c =
     (case collect (map (arg_uses p) ((case Ret c of None \<Rightarrow> [] | Some r \<Rightarrow> [r]) @ Args c)) of
        Inl e \<Rightarrow> Inl e
      | Inr us \<Rightarrow> Inr (remdups us))"

definition intersects :: "used_key list \<Rightarrow> used_key list \<Rightarrow> bool" where
  "intersects list list1 = (\<exists>what \<in> set list1. what \<in> set list)"

text \<open>
  One round of \<^verbatim>\<open>for i, call := range p0.Calls\<close> in \<^verbatim>\<open>relatedCalls\<close>, over the indices
  still to visit; \<open>keepCalls\<close> and \<open>used\<close> hold the keys of the two maps.
\<close>

fun related_round :: "Prog \<Rightarrow> nat list \<Rightarrow> nat list \<times> used_key list \<Rightarrow>
    error + (nat list \<times> used_key list)" where
  "related_round p0 [] s = Inr s"
| "related_round p0 (i # is) (keepCalls, used) =
     (if i \<in> set keepCalls then related_round p0 is (keepCalls, used)
      else (case uses p0 (Calls p0 ! i) of
              Inl e \<Rightarrow> Inl e
            | Inr used1 \<Rightarrow>
                if intersects used used1
                then related_round p0 is (i # keepCalls, List.union used1 used)
                else related_round p0 is (keepCalls, used)))"

lemma related_round_keeps:
  "related_round p0 is (keepCalls, used) = Inr (keepCalls', used') \<Longrightarrow>
   set keepCalls \<subseteq> set keepCalls'"
proof (induction "is" arbitrary: keepCalls used)
  case Nil
  then show ?case by simp
next
  case (Cons i "is")
  then show ?case
    by (fastforce split: if_splits sum.splits)
qed

lemma related_round_grows:
  "related_round p0 is (keepCalls, used) = Inr (keepCalls', used') \<Longrightarrow>
   set is \<subseteq> {..<n} \<Longrightarrow>
   (keepCalls', used') = (keepCalls, used) \<or>
   card ({..<n} - set keepCalls') < card ({..<n} - set keepCalls)"
proof (induction "is" arbitrary: keepCalls used)
  case Nil
  then show ?case by simp
next
  case (Cons i "is")
  show ?case
  proof (cases "i \<in> set keepCalls")
    case True
    with Cons.prems Cons.IH[of keepCalls used] show ?thesis by simp
  next
    case False
    with Cons.prems(1) obtain used1 where u: "uses p0 (Calls p0 ! i) = Inr used1"
      by (auto split: sum.splits)
    show ?thesis
    proof (cases "intersects used used1")
      case no: False
      with False u Cons.prems Cons.IH[of keepCalls used] show ?thesis by simp
    next
      case True
      with False u Cons.prems(1) have
        r: "related_round p0 is (i # keepCalls, List.union used1 used) = Inr (keepCalls', used')"
        by simp
      from Cons.prems(2) have i: "i < n" by simp
      have "card ({..<n} - set (i # keepCalls)) < card ({..<n} - set keepCalls)"
        using False i by (intro psubset_card_mono) auto
      moreover have "card ({..<n} - set keepCalls') \<le> card ({..<n} - set (i # keepCalls))"
        using related_round_keeps[OF r] by (intro card_mono) auto
      ultimately show ?thesis by simp
    qed
  qed
qed

text \<open>The loop \<^verbatim>\<open>for { ... if n == len(used) { return keepCalls } }\<close> of \<^verbatim>\<open>relatedCalls\<close>.\<close>

function related_loop :: "Prog \<Rightarrow> nat list \<times> used_key list \<Rightarrow> error + nat list" where
  "related_loop p0 (keepCalls, used) =
     (case related_round p0 [0..<length (Calls p0)] (keepCalls, used) of
        Inl e \<Rightarrow> Inl e
      | Inr (keepCalls1, used1) \<Rightarrow>
          if length used = length used1 then Inr keepCalls1
          else related_loop p0 (keepCalls1, used1))"
  by pat_completeness auto
termination
proof (relation "measure (\<lambda>(p0, keepCalls, used). card ({..<length (Calls p0)} - set keepCalls))",
       goal_cases)
  case 1
  then show ?case by simp
next
  case (2 p0 keepCalls used x2 keepCalls1 used1)
  have "set [0..<length (Calls p0)] \<subseteq> {..<length (Calls p0)}" by auto
  moreover from 2 have "related_round p0 [0..<length (Calls p0)] (keepCalls, used) =
      Inr (keepCalls1, used1)" by simp
  ultimately have "(keepCalls1, used1) = (keepCalls, used) \<or>
      card ({..<length (Calls p0)} - set keepCalls1) < card ({..<length (Calls p0)} - set keepCalls)"
    using related_round_grows by blast
  with 2 show ?case by auto
qed

declare related_loop.simps [simp del]

definition relatedCalls :: "Prog \<Rightarrow> int \<Rightarrow> error + nat list" where
  "relatedCalls p0 callIndex0 =
     (case index CallsIndex (Calls p0) (nat callIndex0) of
        Inl e \<Rightarrow> Inl e
      | Inr c \<Rightarrow>
          (case uses p0 c of
             Inl e \<Rightarrow> Inl e
           | Inr used \<Rightarrow> related_loop p0 ([nat callIndex0], used)))"

text \<open>The loop \<^verbatim>\<open>for i := len(p0.Calls) - 1; i >= 0; i--\<close> of \<^verbatim>\<open>removeUnrelatedCalls\<close>.\<close>

fun remove_unrelated :: "nat list \<Rightarrow> nat list \<Rightarrow> Prog \<times> int \<Rightarrow> Prog \<times> int" where
  "remove_unrelated keepCalls [] s = s"
| "remove_unrelated keepCalls (i # is) (p, callIndex) =
     (if i \<in> set keepCalls then remove_unrelated keepCalls is (p, callIndex)
      else remove_unrelated keepCalls is
             (RemoveCall p i, if int i < callIndex then callIndex - 1 else callIndex))"

definition removeUnrelatedCalls :: "'s config \<Rightarrow> 's env \<Rightarrow> Prog \<Rightarrow> int \<Rightarrow>
    error + (Prog \<times> int \<times> 's env)" where
  "removeUnrelatedCalls cfg env p0 callIndex0 =
     (case relatedCalls p0 callIndex0 of
        Inl e \<Rightarrow> Inl e
      | Inr keepCalls \<Rightarrow>
          if int (length (Calls p0)) - int (length keepCalls) < 3 then Inr (p0, callIndex0, env)
          else (case remove_unrelated keepCalls (rev [0..<length (Calls p0)]) (Clone p0, callIndex0) of
                  (p, callIndex) \<Rightarrow>
                    (case pred_typed cfg env p callIndex 1 of
                       Inl e \<Rightarrow> Inl e
                     | Inr (ok, p1, env1) \<Rightarrow>
                         Inr (if ok then (p1, callIndex, env1) else (p0, callIndex0, env1)))))"

subsection \<open>removeCalls\<close>

text \<open>
  \<^verbatim>\<open>removeCalls\<close> of \<^verbatim>\<open>part_000\<close>.  The search over the matrix is run and its result
  \<^verbatim>\<open>remove_front_ids\<close> is not used: the block that drops the calls is commented out.
\<close>

definition remove_post_typed :: "'s config \<Rightarrow> 's env \<Rightarrow> Prog \<Rightarrow> int \<Rightarrow> nat list \<Rightarrow>
    error + (Prog \<times> 's env)" where
  "remove_post_typed cfg env p0 callIndex0 ids =
     (if length ids > 0
      then (case pred_typed cfg env (RemoveCalls (Clone p0) ids) callIndex0 1 of
              Inl e \<Rightarrow> Inl e
            | Inr (ok, p1, env1) \<Rightarrow> Inr (if ok then p1 else p0, env1))
      else Inr (p0, env))"

text \<open>The body of the last loop of \<^verbatim>\<open>removeCalls\<close>.\<close>

definition remove_one_typed :: "'s config \<Rightarrow> nat \<Rightarrow> Prog \<times> int \<times> 's env \<Rightarrow>
    error + (Prog \<times> int \<times> 's env)" where
  "remove_one_typed cfg i s =
     (case s of (p0, callIndex0, env) \<Rightarrow>
      if int i = callIndex0 then Inr s
      else (let callIndex = (if int i < callIndex0 then callIndex0 - 1 else callIndex0)
            in case pred_typed cfg env (RemoveCall (Clone p0) i) callIndex 1 of
                 Inl e \<Rightarrow> Inl e
               | Inr (ok, p1, env1) \<Rightarrow>
                   Inr (if ok then (p1, callIndex, env1) else (p0, callIndex0, env1))))"

fun pairwise_typed :: "'s config \<Rightarrow> nat list \<Rightarrow> Prog \<times> int \<times> 's env \<Rightarrow>
    error + (Prog \<times> int \<times> 's env)" where
  "pairwise_typed cfg [] s = Inr s"
| "pairwise_typed cfg (i # is) s =
     (case remove_one_typed cfg i s of Inl e \<Rightarrow> Inl e | Inr s1 \<Rightarrow> pairwise_typed cfg is s1)"

definition removeCalls :: "'s config \<Rightarrow> 's env \<Rightarrow> Prog \<Rightarrow> int \<Rightarrow> bool \<Rightarrow>
    error + (Prog \<times> int \<times> 's env)" where
  "removeCalls cfg env p0 callIndex0 crash =
     (let post = remove_post_ids p0 callIndex0
      in case remove_front_ids (InfluenceMatrix env) p0 callIndex0 of
           Inl e \<Rightarrow> Inl e
         | Inr front \<Rightarrow>
             (case remove_post_typed cfg env p0 callIndex0 post of
                Inl e \<Rightarrow> Inl e
              | Inr (p1, env1) \<Rightarrow>
                  (case (if callIndex0 \<noteq> -1 then removeUnrelatedCalls cfg env1 p1 callIndex0
                         else Inr (p1, callIndex0, env1)) of
                     Inl e \<Rightarrow> Inl e
                   | Inr (p2, callIndex2, env2) \<Rightarrow>
                       pairwise_typed cfg (rev [0..<length (Calls p2)]) (p2, callIndex2, env2))))"

subsection \<open>Minimize\<close>

text \<open>
  \<^verbatim>\<open>Minimize\<close> of \<^verbatim>\<open>part_000\<close>: the calls of \<^verbatim>\<open>resetCallProps\<close> and \<^verbatim>\<open>minimizeCallProps\<close>
  are commented out.
\<close>

definition Minimize_part_000 :: "nat \<Rightarrow> 's config \<Rightarrow> 's env \<Rightarrow> Prog \<Rightarrow> int \<Rightarrow> bool \<Rightarrow>
    (error + (Prog \<times> int \<times> 's env)) option" where
  "Minimize_part_000 fuel cfg env p0 callIndex0 crash =
     (if callIndex0 \<noteq> -1 \<and> (callIndex0 < 0 \<or> callIndex0 \<ge> int (length (Calls p0)))
      then Some (Inl BadCallIndex)
      else (let name0 = (if callIndex0 \<noteq> -1 then Name (Meta (Calls p0 ! nat callIndex0)) else [])
            in case removeCalls cfg env p0 callIndex0 crash of
                 Inl e \<Rightarrow> Some (Inl e)
               | Inr (p1, callIndex1, env1) \<Rightarrow>
                   (case calls_loop fuel part_000 cfg callIndex1 crash 0 (p1, env1) of
                      None \<Rightarrow> None
                    | Some (Inl e) \<Rightarrow> Some (Inl e)
                    | Some (Inr (p3, env3)) \<Rightarrow>
                        if callIndex1 \<noteq> -1 \<and>
                           (callIndex1 < 0 \<or> callIndex1 \<ge> int (length (Calls p3)) \<or>
                            name0 \<noteq> Name (Meta (Calls p3 ! nat callIndex1)))
                        then Some (Inl BadCallIndexAfter)
                        else Some (Inr (p3, callIndex1, env3)))))"

section \<open>Notions of the specification\<close>

text \<open>
  The set \<open>R\<close> of relevant predecessors of the target, in the spec's words: seeded with
  the positions \<open>i < k\<close> whose call influences the target, and closed under adding any
  \<open>j < i\<close> whose call influences the call at some \<open>i\<close> in \<open>R\<close>.
\<close>

inductive_set relevant :: "8 word list list \<Rightarrow> Call list \<Rightarrow> nat \<Rightarrow> nat set"
  for M :: "8 word list list" and cs :: "Call list" and k :: nat where
  seed: "i < k \<Longrightarrow> influence M cs i k = Inr 1 \<Longrightarrow> i \<in> relevant M cs k"
| closed: "i \<in> relevant M cs k \<Longrightarrow> j < i \<Longrightarrow> influence M cs j i = Inr 1 \<Longrightarrow> j \<in> relevant M cs k"

text \<open>The positions that reach, by influence edges to later positions, a position of \<open>S\<close>.\<close>

inductive_set ancestors :: "8 word list list \<Rightarrow> Call list \<Rightarrow> nat set \<Rightarrow> nat set"
  for M :: "8 word list list" and cs :: "Call list" and S :: "nat set" where
  direct: "x \<in> S \<Longrightarrow> j < x \<Longrightarrow> influence M cs j x = Inr 1 \<Longrightarrow> j \<in> ancestors M cs S"
| indirect: "i \<in> ancestors M cs S \<Longrightarrow> j < i \<Longrightarrow> influence M cs j i = Inr 1 \<Longrightarrow> j \<in> ancestors M cs S"

text \<open>Every syscall id of the program indexes the matrix.\<close>

definition ids_in_range :: "8 word list list \<Rightarrow> Call list \<Rightarrow> bool" where
  "ids_in_range M cs = (\<forall>c \<in> set cs. ID (Meta c) < length M \<and> (\<forall>row \<in> set M. ID (Meta c) < length row))"

text \<open>
  Invariants of the visit.  \<open>hooks_preserve cfg Q\<close>: the target's hooks keep the property
  \<open>Q\<close> of the call list; \<open>clear_preserve Q\<close>: so does clearing resource handles;
  \<open>oracle_inv cfg Q I\<close>: the property \<open>I\<close> of the oracle's state survives every call of
  either oracle on a program with \<open>Q\<close> (with \<open>I\<close> "all programs seen so far have \<open>Q\<close>": the
  oracle sees only such programs).
\<close>

definition hooks_preserve :: "'s config \<Rightarrow> (Call list \<Rightarrow> bool) \<Rightarrow> bool" where
  "hooks_preserve cfg Q =
     (\<forall>cs. Q cs \<longrightarrow>
        Q (map (\<lambda>c. c\<lparr>Args := Neutralize cfg (Meta c) (Args c)\<rparr>) cs) \<and>
        (\<forall>ci. Q (cs[ci := (cs ! ci)\<lparr>Args := assignSizesCall cfg (Meta (cs ! ci)) (Args (cs ! ci))\<rparr>]) \<and>
              Q (cs[ci := (cs ! ci)\<lparr>Args := fst (setDefaultConditions cfg (Meta (cs ! ci)) (Args (cs ! ci)))\<rparr>])))"

definition clear_preserve :: "(Call list \<Rightarrow> bool) \<Rightarrow> bool" where
  "clear_preserve Q = (\<forall>cs rs. Q cs \<longrightarrow> Q (map (clear_call rs) cs))"

definition oracle_inv :: "'s config \<Rightarrow> (Call list \<Rightarrow> bool) \<Rightarrow> ('s \<Rightarrow> bool) \<Rightarrow> bool" where
  "oracle_inv cfg Q I =
     (\<forall>s p k. I s \<longrightarrow> Q (Calls p) \<longrightarrow>
        I (snd (pred0 cfg s p k)) \<and> (\<forall>flag. I (snd (pred0_typed cfg s p k flag))))"

text \<open>
  The edits of one argument that the specification allows to a shrink step: another
  value of an integer, another handle and value of a resource, other bytes of a
  buffer, the null pointer for a pointer with a pointee, an array without one of its
  elements when its kind is \<^verbatim>\<open>ArrayRandLen\<close>, or \<^verbatim>\<open>ArrayRangeLen\<close> with more than
  \<open>RangeBegin\<close> elements, and (in \<^verbatim>\<open>part_000\<close> only) the empty array for an array of at
  least 3 elements with \<open>RangeBegin\<close> 0.  \<open>edit_closed f Q\<close>: the property \<open>Q\<close> of the call list survives such an
  edit at any position of any call.
\<close>

inductive shrinks :: "source_file \<Rightarrow> Arg \<Rightarrow> Arg \<Rightarrow> bool" for f :: source_file where
  val: "shrinks f (ConstArg t d v) (ConstArg t d v')"
| res: "shrinks f (ResultArg t d n r v) (ResultArg t d n r' v')"
| bytes: "shrinks f (DataArg t d bs) (DataArg t d bs')"
| null: "shrinks f (PointerArg t d a (Some r)) (PointerArg t d 0 None)"
| elem: "i < length xs \<Longrightarrow> k = ArrayRandLen \<or> k = ArrayRangeLen \<and> unat rb < length xs \<Longrightarrow>
         shrinks f (GroupArg (ArrayType k rb re) d xs)
                   (GroupArg (ArrayType k rb re) d (take i xs @ drop (Suc i) xs))"
| whole: "f = part_000 \<Longrightarrow> 3 \<le> length xs \<Longrightarrow>
          shrinks f (GroupArg (ArrayType k 0 re) d xs) (GroupArg (ArrayType k 0 re) d [])"

definition edit_closed :: "source_file \<Rightarrow> (Call list \<Rightarrow> bool) \<Rightarrow> bool" where
  "edit_closed f Q =
     (\<forall>p i pos a x. Q (Calls p) \<longrightarrow> node p i pos = Some a \<longrightarrow> shrinks f a x \<longrightarrow>
        Q (Calls (put_node p i pos x)))"

text \<open>The committed program and the working program have \<open>Q\<close>, the oracle's state has \<open>I\<close>.\<close>

definition good :: "(Call list \<Rightarrow> bool) \<Rightarrow> ('s \<Rightarrow> bool) \<Rightarrow> 's minimizeArgsCtx \<Rightarrow> bool" where
  "good Q I ctx =
     (Q (Calls (ctx_p0 ctx)) \<and> Q (Calls (ctx_p ctx)) \<and> I (ostate (ctx_env ctx)))"

text \<open>The call at index \<open>k\<close> of the program is a call of \<open>m\<close>.\<close>

definition target_at :: "Prog \<Rightarrow> int \<Rightarrow> Syscall \<Rightarrow> bool" where
  "target_at p k m = (0 \<le> k \<and> k < int (length (Calls p)) \<and> Meta (Calls p ! nat k) = m)"

text \<open>
  The low bound of an array type (\<open>RangeBegin\<close> for the kind \<^verbatim>\<open>ArrayRangeLen\<close>);
  \<open>lens_ok\<close>: every array of an argument tree has at least as many elements as the low
  bound of its type; \<open>arrays_ok\<close>: so for every argument of every call.
\<close>

definition low_bound :: "Type \<Rightarrow> nat" where
  "low_bound t = (case t of ArrayType k rb re \<Rightarrow> (if k = ArrayRangeLen then unat rb else 0) | _ \<Rightarrow> 0)"

fun lens_ok :: "Arg \<Rightarrow> bool" where
  "lens_ok (GroupArg t d xs) = (low_bound t \<le> length xs \<and> (\<forall>x \<in> set xs. lens_ok x))"
| "lens_ok (PointerArg t d a r) = (case r of None \<Rightarrow> True | Some x \<Rightarrow> lens_ok x)"
| "lens_ok (UnionArg t d x i) = lens_ok x"
| "lens_ok (ConstArg t d v) = True"
| "lens_ok (DataArg t d bs) = True"
| "lens_ok (ResultArg t d n r v) = True"

definition arrays_ok :: "Call list \<Rightarrow> bool" where
  "arrays_ok cs = (\<forall>c \<in> set cs. \<forall>a \<in> set (Args c). lens_ok a)"


text \<open>
  The panics that the visit of an argument tree can end in, and the closure of a
  property \<open>J\<close> of the context under the steps of the visit: marking a path, the store
  \<^verbatim>\<open>*ctx.p0 = ctx.p\<close>, the hooks, \<^verbatim>\<open>removeArg\<close>, a call of the oracle, an allowed edit of
  a held argument, and a new clone of the committed program.
\<close>

definition arg_errors :: "error set" where
  "arg_errors = {ValidateFailed, TypeAssertion, FieldsIndex, MinimizingNoMinimize,
     SharedProgramCommitted, StaleProgram, InnerIndex, SliceBounds, Detached}"

definition step_closed :: "source_file \<Rightarrow> 's config \<Rightarrow> ('s minimizeArgsCtx \<Rightarrow> bool) \<Rightarrow> bool" where
  "step_closed f cfg J =
     (\<forall>ctx. J ctx \<longrightarrow>
        (\<forall>s. J (tried s ctx)) \<and> J (commit ctx) \<and> J (assign cfg ctx) \<and>
        (\<forall>a. J (remove a ctx)) \<and> J (fst (patch cfg ctx)) \<and>
        (\<forall>ok ctx1. ctx_pred f cfg ctx = Inr (ok, ctx1) \<longrightarrow> J ctx1) \<and>
        (\<forall>pos a x. held ctx pos = Some a \<longrightarrow> shrinks f a x \<longrightarrow> J (store pos x ctx)) \<and>
        J (ctx\<lparr>ctx_p := Clone (ctx_p0 ctx), ctx_cloned := ctx_commits ctx\<rparr>))"
section \<open>Example programs\<close>

text \<open>A target whose hooks do nothing; both oracles are the given one.\<close>

definition plain_config :: "('s \<Rightarrow> Prog \<Rightarrow> int \<Rightarrow> verdict \<times> 's) \<Rightarrow> bool \<Rightarrow> 's config" where
  "plain_config oracle learning =
     \<lparr>pred0 = oracle, Influence_Learning_Enable = learning,
      Neutralize = (\<lambda>m as. as), debugValidate = (\<lambda>p. True),
      assignSizesCall = (\<lambda>m as. as), setDefaultConditions = (\<lambda>m as. (as, False)),
      specialFileLenPad = [97], pred0_typed = (\<lambda>s p k flag. oracle s p k)\<rparr>"

definition simple_call :: "nat \<Rightarrow> string \<Rightarrow> bool \<Rightarrow> Arg list \<Rightarrow> Call" where
  "simple_call n nm nomin as =
     \<lparr>Meta = \<lparr>ID = n, Name = nm, ArgNames = map (\<lambda>_. ''arg'') as, NoMinimize = nomin\<rparr>,
      Args = as, Ret = None, Props = CallProps0\<rparr>"

definition simple_prog :: "Call list \<Rightarrow> 32 word list \<Rightarrow> Prog" where
  "simple_prog cs hs = \<lparr>Calls = cs, Influence_Hash_NeedUpdate = False,
      Minimize_ExecuteStatus = False, Minimize_CallsCovHash = hs\<rparr>"

text \<open>Scenario 2 of the spec: noop, mk_f, open_r, use_r with open_r -> use_r = 1.\<close>

definition prefix_prog :: Prog where
  "prefix_prog = simple_prog [simple_call 4 ''noop'' False [], simple_call 2 ''mk_f'' False [],
      simple_call 0 ''open_r'' False [], simple_call 1 ''use_r'' False []] []"

definition prefix_matrix :: "8 word list list" where
  "prefix_matrix = [[0,1,0,0,0],[0,0,0,0,0],[0,0,0,0,0],[0,0,0,0,0],[0,0,0,0,0]]"




definition buffer_oracle :: "nat \<Rightarrow> Prog \<Rightarrow> int \<Rightarrow> verdict \<times> nat" where
  "buffer_oracle s p k =
     (\<lparr>accept = (case Args (Calls p ! 0) ! 0 of DataArg t d bs \<Rightarrow> 40 \<le> length bs | _ \<Rightarrow> False),
       ExecuteStatus = False, CallsCovHash = []\<rparr>, Suc s)"

definition blob_type :: Type where
  "blob_type = BufferType BufferBlobRange 10 True False"

definition buffer_prog :: "Arg \<Rightarrow> Prog" where
  "buffer_prog a = simple_prog [simple_call 0 ''write'' False [a]] []"

definition start_ctx :: "Prog \<Rightarrow> nat \<Rightarrow> int \<Rightarrow> bool \<Rightarrow> 's \<Rightarrow> 's minimizeArgsCtx" where
  "start_ctx p i k c s =
     \<lparr>ctx_p0 = p, ctx_p = p, ctx_call = i, ctx_callIndex0 = k, ctx_crash = c, ctx_triedPaths = {},
      ctx_env = \<lparr>InfluenceMatrix = [[0]], ostate = s\<rparr>, ctx_commits = 0, ctx_cloned = 0\<rparr>"

definition keep_call_oracle :: "nat \<Rightarrow> Prog \<Rightarrow> int \<Rightarrow> verdict \<times> nat" where
  "keep_call_oracle s p k =
     (\<lparr>accept = (length (Calls p) = 1), ExecuteStatus = False, CallsCovHash = []\<rparr>, Suc s)"

definition int_arg :: "64 word \<Rightarrow> Arg" where
  "int_arg v = ConstArg (IntType 0) DirIn v"

definition array_prog :: "Arg list \<Rightarrow> Prog" where
  "array_prog xs = simple_prog [simple_call 0 ''writev'' False
      [GroupArg (ArrayType ArrayRandLen 0 0) DirIn xs]] []"

definition names_oracle :: "string list \<Rightarrow> nat \<Rightarrow> Prog \<Rightarrow> int \<Rightarrow> verdict \<times> nat" where
  "names_oracle needed s p k =
     (\<lparr>accept = (set needed \<subseteq> set (map (\<lambda>c. Name (Meta c)) (Calls p))),
       ExecuteStatus = False, CallsCovHash = []\<rparr>, Suc s)"

definition range_prog :: "64 word \<Rightarrow> Arg list \<Rightarrow> Prog" where
  "range_prog rb xs = simple_prog [simple_call 0 ''writev'' False
      [GroupArg (ArrayType ArrayRangeLen rb 8) DirIn xs]] []"

definition len_is :: "nat \<Rightarrow> Call list \<Rightarrow> bool" where
  "len_is n cs = (case map Args cs of [[GroupArg t d ys]] \<Rightarrow> length ys = n | _ \<Rightarrow> False)"

section \<open>Properties of the call-level minimizer\<close>

lemma influence_err: "influence M cs i k = Inl e \<Longrightarrow> e = CallsIndex \<or> e = MatrixIndex"
  by (auto simp: influence_def index_def split: sum.splits if_splits)

lemma scan_err: "scan M cs qm ident js s = Inl e \<Longrightarrow> e = CallsIndex \<or> e = MatrixIndex"
proof (induction js arbitrary: s)
  case Nil
  then show ?case by (cases s) simp
next
  case (Cons j js)
  obtain q im where s: "s = (q, im)" by (cases s)
  show ?case
  proof (cases "influence M cs j ident")
    case (Inl e')
    with Cons.prems s influence_err[of M cs j ident e'] show ?thesis by simp
  next
    case (Inr v)
    with Cons.prems s Cons.IH show ?thesis by (auto split: if_splits)
  qed
qed

lemma Dequeue_nonempty: "0 < Length q \<Longrightarrow> \<exists>x. Dequeue q = Inr (x, True, q\<lparr>items := drop 1 (items q)\<rparr>) \<and> items q = x # drop 1 (items q)"
  by (cases "items q") (auto simp: Dequeue_def Length_def index_def)

lemma drain_err: "drain M cs qm s = Inl e \<Longrightarrow> e = CallsIndex \<or> e = MatrixIndex"
proof (induction M cs qm s rule: drain.induct)
  case (1 M cs qm queue im)
  show ?case
  proof (cases "0 < Length queue")
    case False
    with "1.prems" show ?thesis by (simp add: drain.simps)
  next
    case True
    from Dequeue_nonempty[OF True] obtain x where
      d: "Dequeue queue = Inr (x, True, queue\<lparr>items := drop 1 (items queue)\<rparr>)" by blast
    show ?thesis
    proof (cases "scan M cs qm x (rev [0..<x]) (queue\<lparr>items := drop 1 (items queue)\<rparr>, im)")
      case (Inl e')
      with "1.prems" True d scan_err[OF Inl] show ?thesis by (simp add: drain.simps[of M cs qm queue im])
    next
      case (Inr s')
      with "1.prems" True d have "drain M cs qm s' = Inl e" by (simp add: drain.simps[of M cs qm queue im])
      with "1.IH"[OF True d refl refl Inr] show ?thesis by simp
    qed
  qed
qed

lemma seeds_err: "seeds M cs k is s = Inl e \<Longrightarrow> e = CallsIndex \<or> e = MatrixIndex"
proof (induction "is" arbitrary: s)
  case Nil
  then show ?case by simp
next
  case (Cons i "is")
  obtain q qm im where s: "s = (q, qm, im)" by (cases s)
  show ?case
  proof (cases "influence M cs i k")
    case (Inl e')
    with Cons.prems s influence_err[of M cs i k e'] show ?thesis by simp
  next
    case (Inr v)
    show ?thesis
    proof (cases "v = 1")
      case False
      with Cons.prems s Inr Cons.IH show ?thesis by simp
    next
      case True
      show ?thesis
      proof (cases "drain M cs (qm(i := True)) (Enqueue q i, im(i := True))")
        case (Inl e')
        with Cons.prems s Inr True drain_err[OF Inl] show ?thesis by (simp add: Let_def)
      next
        case (Inr s')
        with Cons.prems s \<open>influence M cs i k = Inr v\<close> True Cons.IH show ?thesis
          by (cases s') (simp add: Let_def)
      qed
    qed
  qed
qed

lemma pred_err: "pred cfg env p k = Inl e \<Longrightarrow> e = ValidateFailed"
  by (auto simp: pred_def Let_def split: if_splits prod.splits)

lemma learn_err: "learn cfg p0 p i s = Inl e \<Longrightarrow> e = CovHashIndex \<or> e = CallsIndex \<or> e = MatrixIndex"
  by (auto simp: learn_def index_def Let_def split: if_splits prod.splits sum.splits dest: influence_err)

lemma remove_one_err: "remove_one cfg i s = Inl e \<Longrightarrow>
   e = ValidateFailed \<or> e = CovHashIndex \<or> e = CallsIndex \<or> e = MatrixIndex"
  by (auto simp: remove_one_def Let_def split: if_splits prod.splits sum.splits dest: pred_err learn_err)

lemma pairwise_err: "pairwise cfg is s = Inl e \<Longrightarrow>
   e = ValidateFailed \<or> e = CovHashIndex \<or> e = CallsIndex \<or> e = MatrixIndex"
  by (induction "is" arbitrary: s) (auto split: sum.splits dest: remove_one_err)

lemma removeCalls_optimize_err: "removeCalls_optimize cfg env p0 k crash = Inl e \<Longrightarrow>
   e = ValidateFailed \<or> e = CovHashIndex \<or> e = CallsIndex \<or> e = MatrixIndex"
  by (auto simp: removeCalls_optimize_def remove_front_ids_def remove_post_def remove_front_def Let_def
       split: if_splits prod.splits sum.splits dest: pred_err pairwise_err seeds_err)

lemma influence_in_range:
  "ids_in_range M cs \<Longrightarrow> i < length cs \<Longrightarrow> k < length cs \<Longrightarrow>
   influence M cs i k = Inr (M ! ID (Meta (cs ! i)) ! ID (Meta (cs ! k)))"
  by (auto simp: influence_def index_def ids_in_range_def)

lemma ancestors_insert:
  "ancestors M cs (insert x A) =
     {j. j < x \<and> influence M cs j x = Inr 1} \<union> ancestors M cs (A \<union> {j. j < x \<and> influence M cs j x = Inr 1})"
  (is "?L = ?P \<union> ?R")
proof (intro set_eqI iffI)
  fix j assume "j \<in> ?L"
  then show "j \<in> ?P \<union> ?R"
  proof induction
    case (direct y j)
    then show ?case by (auto intro: ancestors.direct)
  next
    case (indirect i j)
    then show ?case by (auto intro: ancestors.direct ancestors.indirect)
  qed
next
  fix j assume "j \<in> ?P \<union> ?R"
  then consider "j \<in> ?P" | "j \<in> ?R" by blast
  then show "j \<in> ?L"
  proof cases
    case 1
    then show ?thesis by (auto intro: ancestors.direct)
  next
    case 2
    then show ?thesis
    proof induction
      case (direct y j)
      then show ?case by (auto intro: ancestors.direct ancestors.indirect)
    next
      case (indirect i j)
      then show ?case by (auto intro: ancestors.indirect)
    qed
  qed
qed

lemma ancestors_Un: "ancestors M cs (A \<union> B) = ancestors M cs A \<union> ancestors M cs B"
proof (intro set_eqI iffI)
  fix j assume "j \<in> ancestors M cs (A \<union> B)"
  then show "j \<in> ancestors M cs A \<union> ancestors M cs B"
    by induction (auto intro: ancestors.direct ancestors.indirect)
next
  fix j assume "j \<in> ancestors M cs A \<union> ancestors M cs B"
  then consider "j \<in> ancestors M cs A" | "j \<in> ancestors M cs B" by blast
  then show "j \<in> ancestors M cs (A \<union> B)"
  proof cases
    case 1
    then show ?thesis by induction (auto intro: ancestors.direct ancestors.indirect)
  next
    case 2
    then show ?thesis by induction (auto intro: ancestors.direct ancestors.indirect)
  qed
qed

lemma ancestors_empty: "ancestors M cs {} = {}"
proof -
  have "j \<in> ancestors M cs {} \<Longrightarrow> False" for j
    by (induction rule: ancestors.induct) auto
  then show ?thesis by blast
qed

lemma relevant_ancestors:
  "relevant M cs k = {i. i < k \<and> influence M cs i k = Inr 1} \<union>
                     ancestors M cs {i. i < k \<and> influence M cs i k = Inr 1}" (is "?L = ?T \<union> ?A")
proof (intro set_eqI iffI)
  fix j assume "j \<in> ?L"
  then show "j \<in> ?T \<union> ?A"
    by induction (auto intro: ancestors.direct ancestors.indirect)
next
  fix j assume "j \<in> ?T \<union> ?A"
  then consider "j \<in> ?T" | "j \<in> ?A" by blast
  then show "j \<in> ?L"
  proof cases
    case 1
    then show ?thesis by (auto intro: relevant.seed)
  next
    case 2
    then show ?thesis by induction (auto intro: relevant.seed relevant.closed)
  qed
qed

lemma scan_result:
  assumes "ids_in_range M cs" "ident < length cs" "\<forall>j \<in> set js. j < ident \<and> \<not> qm j"
  shows "scan M cs qm ident js (q, im) =
           Inr (q\<lparr>items := items q @ [j \<leftarrow> js. influence M cs j ident = Inr 1]\<rparr>,
                \<lambda>n. im n \<or> (n \<in> set js \<and> influence M cs n ident = Inr 1))"
  using assms(3)
proof (induction js arbitrary: q im)
  case Nil
  then show ?case by simp
next
  case (Cons j js)
  from Cons.prems assms have j: "j < length cs" "\<not> qm j" by auto
  from influence_in_range[OF assms(1) j(1) assms(2)]
  obtain v where v: "influence M cs j ident = Inr v" by blast
  from Cons.prems have rest: "\<forall>j \<in> set js. j < ident \<and> \<not> qm j" by simp
  show ?case
  proof (cases "v = 1")
    case True
    with v j Cons.IH[OF rest] show ?thesis
      by (auto simp: Enqueue_def fun_eq_iff)
  next
    case False
    with v j Cons.IH[OF rest] show ?thesis
      by (auto simp: fun_eq_iff)
  qed
qed

lemma drain_result:
  "ids_in_range M cs \<Longrightarrow> \<forall>x \<in> set (items q). x < length cs \<and> (\<forall>j < x. \<not> qm j) \<Longrightarrow>
     drain M cs qm (q, im) =
       Inr (q\<lparr>items := []\<rparr>, \<lambda>n. im n \<or> n \<in> ancestors M cs (set (items q)))"
proof (induction M cs qm "(q, im)" arbitrary: q im rule: drain.induct)
  case (1 M cs qm queue im)
  note wf = "1.prems"(1) and pre0 = "1.prems"(2)
  show ?case
  proof (cases "0 < Length queue")
    case False
    then have "items queue = []" by (simp add: Length_def)
    then show ?thesis using False by (simp add: ancestors_empty drain.simps[of M cs qm queue im])
  next
    case True
    from Dequeue_nonempty[OF True] obtain x where
      d: "Dequeue queue = Inr (x, True, queue\<lparr>items := drop 1 (items queue)\<rparr>)"
      and it: "items queue = x # drop 1 (items queue)" by blast
    define xs where "xs = drop 1 (items queue)"
    define q1 where "q1 = queue\<lparr>items := xs\<rparr>"
    from it have it': "items queue = x # xs" by (simp add: xs_def)
    with pre0 have x: "x < length cs" "\<forall>j < x. \<not> qm j" by auto
    have sc: "scan M cs qm x (rev [0..<x]) (q1, im) =
       Inr (q1\<lparr>items := items q1 @ [j \<leftarrow> rev [0..<x]. influence M cs j x = Inr 1]\<rparr>,
            \<lambda>n. im n \<or> (n \<in> set (rev [0..<x]) \<and> influence M cs n x = Inr 1))"
      using x by (intro scan_result[OF wf]) auto
    define q2 where "q2 = q1\<lparr>items := items q1 @ [j \<leftarrow> rev [0..<x]. influence M cs j x = Inr 1]\<rparr>"
    define im2 where "im2 = (\<lambda>n. im n \<or> (n \<in> set (rev [0..<x]) \<and> influence M cs n x = Inr 1))"
    have pre: "\<forall>y \<in> set (items q2). y < length cs \<and> (\<forall>j < y. \<not> qm j)"
      using pre0 it' x by (auto simp: q2_def q1_def)
    have ih: "drain M cs qm (q2, im2) =
        Inr (q2\<lparr>items := []\<rparr>, \<lambda>n. im2 n \<or> n \<in> ancestors M cs (set (items q2)))"
      using "1.hyps"[OF True d refl refl _ wf pre] sc
      by (simp add: q1_def xs_def q2_def im2_def)
    have set2: "set (items q2) = set xs \<union> {j. j < x \<and> influence M cs j x = Inr 1}"
      by (auto simp: q2_def q1_def)
    have "drain M cs qm (queue, im) = drain M cs qm (q2, im2)"
      using True d sc by (simp add: q1_def xs_def q2_def im2_def drain.simps[of M cs qm queue im])
    also note ih
    finally show ?thesis
      using it' by (auto simp: set2 ancestors_insert[of M cs x "set xs"] q2_def q1_def im2_def fun_eq_iff)
  qed
qed

lemma seeds_result:
  assumes wf: "ids_in_range M cs" and k: "k < length cs"
  shows "m \<le> k \<Longrightarrow> items q = [] \<Longrightarrow> \<forall>j < m. \<not> qm j \<Longrightarrow>
     \<exists>q' qm'. seeds M cs k (rev [0..<m]) (q, qm, im) =
       Inr (q', qm', \<lambda>n. im n \<or> n \<in> {i. i < m \<and> influence M cs i k = Inr 1} \<union>
                               ancestors M cs {i. i < m \<and> influence M cs i k = Inr 1})"
proof (induction m arbitrary: q qm im)
  case 0
  then show ?case by (simp add: ancestors_empty)
next
  case (Suc m)
  let ?T = "\<lambda>m. {i. i < m \<and> influence M cs i k = Inr 1}"
  from Suc.prems k have m: "m < length cs" "m \<le> k" by auto
  from influence_in_range[OF wf m(1) k] obtain v where v: "influence M cs m k = Inr v" by blast
  show ?case
  proof (cases "v = 1")
    case False
    with v have T: "?T (Suc m) = ?T m" by (auto simp: less_Suc_eq)
    from Suc.prems have "\<forall>j<m. \<not> qm j" by simp
    from Suc.IH[OF m(2) Suc.prems(2) this, of im] False v T show ?thesis by simp
  next
    case True
    with v have T: "?T (Suc m) = insert m (?T m)" by (auto simp: less_Suc_eq)
    define q1 where "q1 = Enqueue q m"
    define qm1 where "qm1 = qm(m := True)"
    define im1 where "im1 = (\<lambda>n. (im(m := True)) n \<or> n \<in> ancestors M cs {m})"
    have it1: "items q1 = [m]" using Suc.prems by (simp add: q1_def Enqueue_def)
    have pre1: "\<forall>x \<in> set (items q1). x < length cs \<and> (\<forall>j < x. \<not> qm1 j)"
      using it1 m Suc.prems by (auto simp: qm1_def)
    have "drain M cs qm1 (q1, im(m := True)) =
       Inr (q1\<lparr>items := []\<rparr>, \<lambda>n. (im(m := True)) n \<or> n \<in> ancestors M cs (set (items q1)))"
      by (rule drain_result[OF wf pre1])
    then have dr: "drain M cs qm1 (q1, im(m := True)) = Inr (q1\<lparr>items := []\<rparr>, im1)"
      unfolding it1 im1_def by simp
    have pre: "\<forall>j<m. \<not> qm1 j" using Suc.prems by (simp add: qm1_def)
    from Suc.IH[OF m(2) _ pre, of "q1\<lparr>items := []\<rparr>" im1]
    obtain q' qm' where ih: "seeds M cs k (rev [0..<m]) (q1\<lparr>items := []\<rparr>, qm1, im1) =
       Inr (q', qm', \<lambda>n. im1 n \<or> n \<in> ?T m \<union> ancestors M cs (?T m))" by auto
    have un: "ancestors M cs (insert m (?T m)) = ancestors M cs {m} \<union> ancestors M cs (?T m)"
      using ancestors_Un[of M cs "{m}" "?T m"] by simp
    have "seeds M cs k (rev [0..<Suc m]) (q, qm, im) =
       Inr (q', qm', \<lambda>n. im1 n \<or> n \<in> ?T m \<union> ancestors M cs (?T m))"
      using v True dr ih by (simp add: q1_def qm1_def Let_def)
    moreover have "(\<lambda>n. im1 n \<or> n \<in> ?T m \<union> ancestors M cs (?T m)) =
          (\<lambda>n. im n \<or> n \<in> ?T (Suc m) \<union> ancestors M cs (?T (Suc m)))"
      unfolding T un im1_def by (auto simp: fun_eq_iff)
    ultimately show ?thesis by simp
  qed
qed

lemma remove_front_ids_relevant:
  assumes "ids_in_range M (Calls p0)" "k0 < int (length (Calls p0))"
  shows "remove_front_ids M p0 k0 =
           Inr [i \<leftarrow> [0..<nat k0]. i \<notin> relevant M (Calls p0) (nat k0)]"
proof (cases "k0 \<le> 0")
  case True
  then show ?thesis by (simp add: remove_front_ids_def)
next
  case False
  with assms have k: "nat k0 < length (Calls p0)" by auto
  from seeds_result[OF assms(1) k, of "nat k0" NewIntQueue "\<lambda>_. False" "\<lambda>_. False"]
  obtain q' qm' where "seeds M (Calls p0) (nat k0) (rev [0..<nat k0]) (NewIntQueue, \<lambda>_. False, \<lambda>_. False) =
     Inr (q', qm', \<lambda>n. n \<in> relevant M (Calls p0) (nat k0))"
    by (auto simp: NewIntQueue_def relevant_ancestors)
  then show ?thesis by (simp add: remove_front_ids_def)
qed

lemma Meta_clear_call [simp]: "Meta (clear_call rs c) = Meta c"
  by (simp add: clear_call_def)

lemma Props_clear_call [simp]: "Props (clear_call rs c) = Props c"
  by (simp add: clear_call_def)

lemma metas_RemoveCall:
  "map Meta (Calls (RemoveCall p x)) = take x (map Meta (Calls p)) @ drop (Suc x) (map Meta (Calls p))"
  by (simp add: RemoveCall_def take_map drop_map comp_def)

lemma nths_eq_on:
  "(\<And>i. i < length xs \<Longrightarrow> i \<in> A \<longleftrightarrow> i \<in> B) \<Longrightarrow> nths xs A = nths xs B"
  unfolding nths_def
  by (rule arg_cong[where f = "map fst"], rule filter_cong) (auto simp: set_zip)

lemma remove_nth_nths:
  assumes "\<forall>i \<in> S. i < x"
  shows "nths (take x ms @ drop (Suc x) ms) (- S) = nths ms (- insert x S)"
proof (cases "x < length ms")
  case True
  have ms: "ms = take x ms @ ms ! x # drop (Suc x) ms" using True by (rule id_take_nth_drop)
  have a: "nths (take x ms) (- S) = nths (take x ms) (- insert x S)"
    by (rule nths_eq_on) auto
  have b: "Suc (j + x) \<notin> S" "j + x \<notin> S" for j
    using assms by force+
  have "nths (take x ms @ ms ! x # drop (Suc x) ms) (- insert x S) =
        nths (take x ms) (- insert x S) @ drop (Suc x) ms"
    using True by (simp add: nths_append nths_Cons b nths_all min_def)
  moreover have "nths (take x ms @ drop (Suc x) ms) (- S) = nths (take x ms) (- S) @ drop (Suc x) ms"
    using True by (simp add: nths_append b nths_all min_def)
  ultimately show ?thesis using ms a by metis
next
  case False
  then have "nths ms (- S) = nths ms (- insert x S)"
    by (intro nths_eq_on) auto
  with False show ?thesis by simp
qed

lemma RemoveCalls_snoc: "RemoveCalls p (ids @ [x]) = RemoveCalls (RemoveCall p x) ids"
  by (simp add: RemoveCalls_def)

lemma metas_RemoveCalls:
  "sorted_wrt (<) ids \<Longrightarrow>
   map Meta (Calls (RemoveCalls p ids)) = nths (map Meta (Calls p)) (- set ids)"
proof (induction ids arbitrary: p rule: rev_induct)
  case Nil
  then show ?case by (simp add: RemoveCalls_def nths_all)
next
  case (snoc x ids)
  from snoc.prems have s: "sorted_wrt (<) ids" and lt: "\<forall>i \<in> set ids. i < x"
    by (auto simp: sorted_wrt_append)
  have "map Meta (Calls (RemoveCalls p (ids @ [x]))) =
        nths (map Meta (Calls (RemoveCall p x))) (- set ids)"
    using snoc.IH[OF s] by (simp add: RemoveCalls_snoc)
  also have "\<dots> = nths (map Meta (Calls p)) (- insert x (set ids))"
    unfolding metas_RemoveCall by (rule remove_nth_nths[OF lt])
  finally show ?case by simp
qed

lemma metas_sanitizeFix [simp]: "map Meta (Calls (sanitizeFix cfg p)) = map Meta (Calls p)"
  by (simp add: sanitizeFix_def comp_def)



lemma Calls_hash_request [simp]: "Calls (hash_request cfg p) = Calls p"
  by (simp add: hash_request_def)

lemma Calls_hash_reset [simp]: "Calls (hash_reset cfg p) = Calls p"
  by (simp add: hash_reset_def)

lemma Calls_Clone [simp]: "Calls (Clone p) = Calls p"
  by (simp add: Clone_def)



text \<open>
  C5.  The prefix drop of \<^verbatim>\<open>removeCalls_optimize\<close>.  The search computes the positions
  \<open>i < k0\<close> outside the set \<open>relevant\<close> of the program it is given.  With \<open>p1\<close> the baseline
  that the suffix stage leaves, \<^verbatim>\<open>removeCalls_optimize\<close> proposes \<open>p1\<close> without the calls at
  these positions (the calls at the other positions are kept, in order), with the index
  \<open>k0\<close> less their number; if the oracle accepts, the pairwise stage starts from the
  proposal and that index, otherwise from \<open>p1\<close> and \<open>k0\<close>; with no such position there
  is no proposal.
\<close>

theorem C5_prefix_drop:
  assumes "ids_in_range (InfluenceMatrix env) (Calls p0)" and "k0 < int (length (Calls p0))"
      and "remove_post cfg env p0 k0 (remove_post_ids p0 k0) = Inr (p1, env1)"
      and "front = [i \<leftarrow> [0..<nat k0]. i \<notin> relevant (InfluenceMatrix env) (Calls p0) (nat k0)]"
  shows "remove_front_ids (InfluenceMatrix env) p0 k0 = Inr front \<and>
         map Meta (Calls (RemoveCalls (Clone p1) front)) =
           nths (map Meta (Calls p1))
             {i. i \<in> relevant (InfluenceMatrix env) (Calls p0) (nat k0) \<or> nat k0 \<le> i} \<and>
         (front = [] \<longrightarrow>
            removeCalls_optimize cfg env p0 k0 crash =
              pairwise cfg (rev [0..<length (Calls p1)]) (p1, k0, False, env1)) \<and>
         (front \<noteq> [] \<longrightarrow>
            (\<forall>e. pred cfg env1 (hash_request cfg (RemoveCalls (Clone p1) front))
                    (k0 - int (length front)) = Inl e \<longrightarrow>
                 removeCalls_optimize cfg env p0 k0 crash = Inl e) \<and>
            (\<forall>ok q env2.
               pred cfg env1 (hash_request cfg (RemoveCalls (Clone p1) front))
                 (k0 - int (length front)) = Inr (ok, q, env2) \<longrightarrow>
               removeCalls_optimize cfg env p0 k0 crash =
                 (if ok
                  then pairwise cfg (rev [0..<length (Calls q)])
                         (hash_reset cfg q, k0 - int (length front), False, env2)
                  else pairwise cfg (rev [0..<length (Calls p1)]) (p1, k0, False, env2))))"
proof -
  let ?R = "relevant (InfluenceMatrix env) (Calls p0) (nat k0)"
  have f: "remove_front_ids (InfluenceMatrix env) p0 k0 = Inr front"
    unfolding assms(4) by (rule remove_front_ids_relevant[OF assms(1,2)])
  have s: "sorted_wrt (<) front" unfolding assms(4) by (intro sorted_wrt_filter) simp
  have c: "- set front = {i. i \<in> ?R \<or> nat k0 \<le> i}" unfolding assms(4) by auto
  have m: "map Meta (Calls (RemoveCalls (Clone p1) front)) =
        nths (map Meta (Calls p1)) {i. i \<in> ?R \<or> nat k0 \<le> i}"
    using metas_RemoveCalls[OF s, of "Clone p1"] unfolding c by simp
  have e: "front = [] \<longrightarrow>
            removeCalls_optimize cfg env p0 k0 crash =
              pairwise cfg (rev [0..<length (Calls p1)]) (p1, k0, False, env1)"
    using f assms(3) by (simp add: removeCalls_optimize_def Let_def remove_front_def)
  have n: "front \<noteq> [] \<longrightarrow>
            (\<forall>e. pred cfg env1 (hash_request cfg (RemoveCalls (Clone p1) front))
                    (k0 - int (length front)) = Inl e \<longrightarrow>
                 removeCalls_optimize cfg env p0 k0 crash = Inl e) \<and>
            (\<forall>ok q env2.
               pred cfg env1 (hash_request cfg (RemoveCalls (Clone p1) front))
                 (k0 - int (length front)) = Inr (ok, q, env2) \<longrightarrow>
               removeCalls_optimize cfg env p0 k0 crash =
                 (if ok
                  then pairwise cfg (rev [0..<length (Calls q)])
                         (hash_reset cfg q, k0 - int (length front), False, env2)
                  else pairwise cfg (rev [0..<length (Calls p1)]) (p1, k0, False, env2)))"
    using f assms(3) by (simp add: removeCalls_optimize_def Let_def remove_front_def)
  from f m e n show ?thesis by blast
qed

theorem C5_prefix_drop_witness:
  "ids_in_range prefix_matrix (Calls prefix_prog) \<and> (3::int) < int (length (Calls prefix_prog)) \<and>
   [i \<leftarrow> [0..<nat 3]. i \<notin> relevant prefix_matrix (Calls prefix_prog) (nat 3)] = [0, 1] \<and>
   removeCalls_optimize (plain_config (names_oracle [''open_r'', ''use_r'']) False)
     \<lparr>InfluenceMatrix = prefix_matrix, ostate = 0\<rparr> prefix_prog 3 False =
   Inr (simple_prog [simple_call 0 ''open_r'' False [], simple_call 1 ''use_r'' False []] [],
        1, False, \<lparr>InfluenceMatrix = prefix_matrix, ostate = 2\<rparr>)"
proof -
  let ?cfg = "plain_config (names_oracle [''open_r'', ''use_r'']) False"
  let ?env = "\<lparr>InfluenceMatrix = prefix_matrix, ostate = 0::nat\<rparr>"
  let ?front = "[i \<leftarrow> [0..<nat 3]. i \<notin> relevant prefix_matrix (Calls prefix_prog) (nat 3)]"
  let ?q = "simple_prog [simple_call 0 ''open_r'' False [], simple_call 1 ''use_r'' False []] []"
  let ?env2 = "\<lparr>InfluenceMatrix = prefix_matrix, ostate = 1::nat\<rparr>"
  have h1: "ids_in_range (InfluenceMatrix ?env) (Calls prefix_prog)"
    by (simp add: ids_in_range_def prefix_matrix_def prefix_prog_def simple_prog_def simple_call_def)
  have h2: "(3::int) < int (length (Calls prefix_prog))"
    by (simp add: prefix_prog_def simple_prog_def)
  have h3: "remove_post ?cfg ?env prefix_prog 3 (remove_post_ids prefix_prog 3) = Inr (prefix_prog, ?env)"
    by code_simp
  have e: "remove_front_ids prefix_matrix prefix_prog 3 = Inr [0, 1]" by code_simp
  have M: "InfluenceMatrix ?env = prefix_matrix" by simp
  note t = C5_prefix_drop[OF h1 h2 h3 refl, of False, unfolded M]
  from t have "remove_front_ids prefix_matrix prefix_prog 3 = Inr ?front" by (rule conjunct1)
  then have fr: "?front = [0, 1]" using e by simp
  have p: "pred ?cfg ?env (hash_request ?cfg (RemoveCalls (Clone prefix_prog) [0, 1])) (3 - int (length [0::nat, 1])) =
           Inr (True, ?q, ?env2)"
    by code_simp
  have pw: "pairwise ?cfg (rev [0..<length (Calls ?q)]) (hash_reset ?cfg ?q, 3 - int (length [0::nat, 1]), False, ?env2) =
            Inr (?q, 1, False, \<lparr>InfluenceMatrix = prefix_matrix, ostate = 2\<rparr>)"
    by code_simp
  have ne: "[0::nat, 1] \<noteq> []" by simp
  note c = t[unfolded fr, THEN conjunct2, THEN conjunct2, THEN conjunct2, THEN mp, OF ne,
      THEN conjunct2, THEN spec, THEN spec, THEN spec, THEN mp, OF p]
  have r: "removeCalls_optimize ?cfg ?env prefix_prog 3 False =
      Inr (?q, 1, False, \<lparr>InfluenceMatrix = prefix_matrix, ostate = 2\<rparr>)"
    using c unfolding if_True pw .
  show ?thesis by (intro conjI) (rule h1[unfolded M] h2 fr r)+
qed


lemma pred_env:
  "pred cfg env p k = Inr (ok, p1, env1) \<Longrightarrow> \<exists>s. env1 = env\<lparr>ostate := s\<rparr>"
  by (auto simp: pred_def Let_def split: if_splits prod.splits)







section \<open>Positions and contexts\<close>

lemma get_at_append:
  "get_at a (ks @ [k]) = (case get_at a ks of None \<Rightarrow> None | Some c \<Rightarrow> child c k)"
  by (induction ks arbitrary: a) (auto split: option.splits)

lemma node_append: "node p i pos = Some a \<Longrightarrow> node p i (pos @ [k]) = child a k"
  by (cases pos) (auto simp: node_def get_at_append split: if_splits)

lemma held_child: "held ctx pos = Some a \<Longrightarrow> held ctx (pos @ [k]) = child a k"
  by (simp add: held_def node_append)

lemma held_elem:
  "held ctx pos = Some (GroupArg t d inner) \<Longrightarrow> i < length inner \<Longrightarrow>
   held ctx (pos @ [i]) = Some (inner ! i)"
  by (simp add: held_child child_def)

lemma held_pointee:
  "held ctx pos = Some (PointerArg t d a (Some r)) \<Longrightarrow> held ctx (pos @ [0]) = Some r"
  by (simp add: held_child child_def)

lemma held_option:
  "held ctx pos = Some (UnionArg t d x i) \<Longrightarrow> held ctx (pos @ [0]) = Some x"
  by (simp add: held_child child_def)

lemma child_clear_uses: "child (clear_uses rs a) k = map_option (clear_uses rs) (child a k)"
  by (cases a) (auto simp: child_def split: option.splits)

lemma get_at_clear_uses:
  "get_at (clear_uses rs a) ks = map_option (clear_uses rs) (get_at a ks)"
  by (induction ks arbitrary: a) (auto simp: child_clear_uses split: option.splits)

lemma node_removeArg:
  "node (removeArg a p) i pos = map_option (clear_uses (arg_rids a)) (node p i pos)"
  by (cases pos) (auto simp: node_def removeArg_def clear_call_def get_at_clear_uses)

lemma held_remove:
  "held (remove a ctx) pos = map_option (clear_uses (arg_rids a)) (held ctx pos)"
  by (simp add: held_def remove_def node_removeArg)

lemma held_fold_remove_group:
  "held ctx pos = Some (GroupArg t d inner) \<Longrightarrow>
   \<exists>inner'. held (fold remove xs ctx) pos = Some (GroupArg t d inner') \<and>
            length inner' = length inner"
proof (induction xs arbitrary: ctx inner)
  case Nil
  then show ?case by simp
next
  case (Cons x xs)
  from Cons.prems have "held (remove x ctx) pos = Some (GroupArg t d (map (clear_uses (arg_rids x)) inner))"
    by (simp add: held_remove)
  from Cons.IH[OF this] show ?case by simp
qed

lemma tried_fields [simp]:
  "ctx_p (tried s ctx) = ctx_p ctx" "ctx_p0 (tried s ctx) = ctx_p0 ctx"
  "ctx_call (tried s ctx) = ctx_call ctx" "ctx_callIndex0 (tried s ctx) = ctx_callIndex0 ctx"
  "ctx_crash (tried s ctx) = ctx_crash ctx" "ctx_env (tried s ctx) = ctx_env ctx"
  "ctx_commits (tried s ctx) = ctx_commits ctx" "ctx_cloned (tried s ctx) = ctx_cloned ctx"
  "ctx_triedPaths (tried s ctx) = insert s (ctx_triedPaths ctx)"
  by (simp_all add: tried_def)

lemma held_tried [simp]: "held (tried s ctx) pos = held ctx pos"
  by (simp add: held_def)

lemma commit_fields [simp]:
  "ctx_p (commit ctx) = ctx_p ctx" "ctx_p0 (commit ctx) = ctx_p ctx"
  "ctx_call (commit ctx) = ctx_call ctx" "ctx_callIndex0 (commit ctx) = ctx_callIndex0 ctx"
  "ctx_crash (commit ctx) = ctx_crash ctx" "ctx_env (commit ctx) = ctx_env ctx"
  "ctx_commits (commit ctx) = Suc (ctx_commits ctx)" "ctx_cloned (commit ctx) = ctx_cloned ctx"
  "ctx_triedPaths (commit ctx) = ctx_triedPaths ctx"
  by (simp_all add: commit_def)

lemma store_fields [simp]:
  "ctx_p (store pos x ctx) = put_node (ctx_p ctx) (ctx_call ctx) pos x"
  "ctx_p0 (store pos x ctx) = ctx_p0 ctx"
  "ctx_call (store pos x ctx) = ctx_call ctx" "ctx_callIndex0 (store pos x ctx) = ctx_callIndex0 ctx"
  "ctx_crash (store pos x ctx) = ctx_crash ctx" "ctx_env (store pos x ctx) = ctx_env ctx"
  "ctx_commits (store pos x ctx) = ctx_commits ctx" "ctx_cloned (store pos x ctx) = ctx_cloned ctx"
  "ctx_triedPaths (store pos x ctx) = ctx_triedPaths ctx"
  by (simp_all add: store_def)

lemma assign_fields [simp]:
  "ctx_p (assign cfg ctx) = assignSizes cfg (ctx_call ctx) (ctx_p ctx)"
  "ctx_p0 (assign cfg ctx) = ctx_p0 ctx"
  "ctx_call (assign cfg ctx) = ctx_call ctx" "ctx_callIndex0 (assign cfg ctx) = ctx_callIndex0 ctx"
  "ctx_env (assign cfg ctx) = ctx_env ctx"
  "ctx_commits (assign cfg ctx) = ctx_commits ctx" "ctx_cloned (assign cfg ctx) = ctx_cloned ctx"
  "ctx_triedPaths (assign cfg ctx) = ctx_triedPaths ctx"
  by (simp_all add: assign_def)

lemma remove_fields [simp]:
  "ctx_p (remove a ctx) = removeArg a (ctx_p ctx)"
  "ctx_p0 (remove a ctx) = ctx_p0 ctx"
  "ctx_call (remove a ctx) = ctx_call ctx" "ctx_callIndex0 (remove a ctx) = ctx_callIndex0 ctx"
  "ctx_crash (remove a ctx) = ctx_crash ctx" "ctx_env (remove a ctx) = ctx_env ctx"
  "ctx_commits (remove a ctx) = ctx_commits ctx" "ctx_cloned (remove a ctx) = ctx_cloned ctx"
  "ctx_triedPaths (remove a ctx) = ctx_triedPaths ctx"
  by (simp_all add: remove_def)

lemma patch_fields [simp]:
  "ctx_p0 (fst (patch cfg ctx)) = ctx_p0 ctx"
  "ctx_call (fst (patch cfg ctx)) = ctx_call ctx"
  "ctx_callIndex0 (fst (patch cfg ctx)) = ctx_callIndex0 ctx"
  "ctx_crash (fst (patch cfg ctx)) = ctx_crash ctx" "ctx_env (fst (patch cfg ctx)) = ctx_env ctx"
  "ctx_commits (fst (patch cfg ctx)) = ctx_commits ctx"
  "ctx_cloned (fst (patch cfg ctx)) = ctx_cloned ctx"
  "ctx_triedPaths (fst (patch cfg ctx)) = ctx_triedPaths ctx"
  by (simp_all add: patch_def Let_def)

lemma set_Val_fields [simp]:
  "ctx_p0 (set_Val pos v ctx) = ctx_p0 ctx"
  "ctx_call (set_Val pos v ctx) = ctx_call ctx"
  "ctx_callIndex0 (set_Val pos v ctx) = ctx_callIndex0 ctx"
  "ctx_crash (set_Val pos v ctx) = ctx_crash ctx" "ctx_env (set_Val pos v ctx) = ctx_env ctx"
  "ctx_commits (set_Val pos v ctx) = ctx_commits ctx"
  "ctx_cloned (set_Val pos v ctx) = ctx_cloned ctx"
  "ctx_triedPaths (set_Val pos v ctx) = ctx_triedPaths ctx"
  by (simp_all add: set_Val_def split: option.splits Arg.splits)

lemma set_Res_fields [simp]:
  "ctx_p0 (set_Res pos r v ctx) = ctx_p0 ctx"
  "ctx_call (set_Res pos r v ctx) = ctx_call ctx"
  "ctx_callIndex0 (set_Res pos r v ctx) = ctx_callIndex0 ctx"
  "ctx_crash (set_Res pos r v ctx) = ctx_crash ctx" "ctx_env (set_Res pos r v ctx) = ctx_env ctx"
  "ctx_commits (set_Res pos r v ctx) = ctx_commits ctx"
  "ctx_cloned (set_Res pos r v ctx) = ctx_cloned ctx"
  "ctx_triedPaths (set_Res pos r v ctx) = ctx_triedPaths ctx"
  by (simp_all add: set_Res_def split: option.splits Arg.splits)

lemma set_data_fields [simp]:
  "ctx_p0 (set_data pos bs ctx) = ctx_p0 ctx"
  "ctx_call (set_data pos bs ctx) = ctx_call ctx"
  "ctx_callIndex0 (set_data pos bs ctx) = ctx_callIndex0 ctx"
  "ctx_env (set_data pos bs ctx) = ctx_env ctx"
  "ctx_commits (set_data pos bs ctx) = ctx_commits ctx"
  "ctx_cloned (set_data pos bs ctx) = ctx_cloned ctx"
  "ctx_triedPaths (set_data pos bs ctx) = ctx_triedPaths ctx"
  by (simp_all add: set_data_def split: option.splits Arg.splits)

lemma ctx_pred_err: "ctx_pred f cfg ctx = Inl e \<Longrightarrow> e = ValidateFailed"
  by (auto simp: ctx_pred_def pred_def pred_typed_def Let_def
      split: source_file.splits sum.splits prod.splits if_splits)

text \<open>What a call of the oracle does to the context.\<close>

lemma ctx_pred_result:
  assumes "ctx_pred f cfg ctx = Inr (ok, ctx1)"
  shows "\<exists>v s. (v, s) = (case f of
                  minimization_go \<Rightarrow>
                    pred0 cfg (ostate (ctx_env ctx)) (sanitizeFix cfg (ctx_p ctx)) (ctx_callIndex0 ctx)
                | part_000 \<Rightarrow>
                    pred0_typed cfg (ostate (ctx_env ctx)) (sanitizeFix cfg (ctx_p ctx))
                      (ctx_callIndex0 ctx) 2) \<and>
           ok = accept v \<and> debugValidate cfg (sanitizeFix cfg (ctx_p ctx)) \<and>
           ctx1 = ctx\<lparr>ctx_p := (sanitizeFix cfg (ctx_p ctx))
                          \<lparr>Minimize_ExecuteStatus := ExecuteStatus v,
                           Minimize_CallsCovHash := CallsCovHash v\<rparr>,
                      ctx_env := (ctx_env ctx)\<lparr>ostate := s\<rparr>\<rparr>"
  using assms
  by (cases f)
     (auto simp: ctx_pred_def pred_def pred_typed_def Let_def split: sum.splits prod.splits if_splits)

lemma ctx_pred_fields:
  assumes "ctx_pred f cfg ctx = Inr (ok, ctx1)"
  shows "ctx_p0 ctx1 = ctx_p0 ctx" "ctx_call ctx1 = ctx_call ctx"
    "ctx_callIndex0 ctx1 = ctx_callIndex0 ctx" "ctx_crash ctx1 = ctx_crash ctx"
    "ctx_commits ctx1 = ctx_commits ctx" "ctx_cloned ctx1 = ctx_cloned ctx"
    "ctx_triedPaths ctx1 = ctx_triedPaths ctx"
    "InfluenceMatrix (ctx_env ctx1) = InfluenceMatrix (ctx_env ctx)"
    "map Meta (Calls (ctx_p ctx1)) = map Meta (Calls (ctx_p ctx))"
  using ctx_pred_result[OF assms] by auto

section \<open>Closure of a property of the context under the visit\<close>

lemma step_closedD:
  assumes "step_closed f cfg J" "J ctx"
  shows "J (tried s ctx)" "J (commit ctx)" "J (assign cfg ctx)" "J (remove a ctx)"
    "J (fst (patch cfg ctx))"
    "ctx_pred f cfg ctx = Inr (ok, ctx1) \<Longrightarrow> J ctx1"
    "held ctx pos = Some b \<Longrightarrow> shrinks f b x \<Longrightarrow> J (store pos x ctx)"
    "J (ctx\<lparr>ctx_p := Clone (ctx_p0 ctx), ctx_cloned := ctx_commits ctx\<rparr>)"
  using assms unfolding step_closed_def by blast+

lemma fold_remove_closed:
  "step_closed f cfg J \<Longrightarrow> J ctx \<Longrightarrow> J (fold remove xs ctx)"
  by (induction xs arbitrary: ctx) (auto intro: step_closedD(4))

lemma try_commit_closed:
  "step_closed f cfg J \<Longrightarrow> J ctx \<Longrightarrow> try_commit f cfg ctx = Inr ctx1 \<Longrightarrow> J ctx1"
  by (auto simp: try_commit_def split: sum.splits prod.splits if_splits
      intro: step_closedD(2) step_closedD(6))

lemma set_Val_closed: "step_closed f cfg J \<Longrightarrow> J ctx \<Longrightarrow> J (set_Val pos v ctx)"
  by (auto simp: set_Val_def split: option.splits Arg.splits intro: step_closedD(7) shrinks.val)

lemma set_Res_closed: "step_closed f cfg J \<Longrightarrow> J ctx \<Longrightarrow> J (set_Res pos r v ctx)"
  by (auto simp: set_Res_def split: option.splits Arg.splits intro: step_closedD(7) shrinks.res)

lemma set_data_closed: "step_closed f cfg J \<Longrightarrow> J ctx \<Longrightarrow> J (set_data pos bs ctx)"
  by (auto simp: set_data_def split: option.splits Arg.splits intro: step_closedD(7) shrinks.bytes)

lemma minimizeInt_closed:
  assumes sc: "step_closed f cfg J" and j: "J ctx" and h: "held ctx pos = Some arg"
      and r: "minimizeInt f cfg pos arg path ctx = Inr (b, ctx')"
  shows "J ctx'"
proof (cases "ctx_crash ctx")
  case True
  with r j show ?thesis by (simp add: minimizeInt_def)
next
  case False
  from r False obtain t d v0 dv where a: "arg = ConstArg t d v0" and dv: "DefaultArg_Val t = Some dv"
    by (auto simp: minimizeInt_def split: Arg.splits option.splits)
  show ?thesis
  proof (cases "v0 = dv")
    case True
    with r False a dv j show ?thesis by (simp add: minimizeInt_def)
  next
    case ne: False
    let ?c1 = "patch cfg (store pos (ConstArg t d dv) ctx)"
    have j1: "J (fst ?c1)"
      using h a by (intro step_closedD(5)[OF sc] step_closedD(7)[OF sc j]) (auto intro: shrinks.val)
    from r False a dv ne obtain ok ctx2 where p: "ctx_pred f cfg (fst ?c1) = Inr (ok, ctx2)"
      by (auto simp: minimizeInt_def split: prod.splits sum.splits)
    from step_closedD(6)[OF sc j1 p] have j2: "J ctx2" .
    from r False a dv ne p have "ctx' = tried path (commit ctx2) \<or>
        ctx' = tried path (set_Val pos v0 ctx2) \<or> ctx' = set_Val pos v0 ctx2"
      by (auto simp: minimizeInt_def split: prod.splits if_splits)
    with j2 show ?thesis
      by (auto intro!: step_closedD(1)[OF sc] step_closedD(2)[OF sc] set_Val_closed[OF sc])
  qed
qed

lemma ResourceType_minimize_closed:
  assumes sc: "step_closed f cfg J" and j: "J ctx" and h: "held ctx pos = Some arg"
      and r: "ResourceType_minimize f cfg pos arg path ctx = Inr (b, ctx')"
  shows "J ctx'"
proof (cases "ctx_crash ctx")
  case True
  with r j show ?thesis by (simp add: ResourceType_minimize_def)
next
  case False
  from r False obtain t d n res v where a: "arg = ResultArg t d n res v"
    by (auto simp: ResourceType_minimize_def split: Arg.splits)
  show ?thesis
  proof (cases res)
    case None
    with r False a j show ?thesis by (simp add: ResourceType_minimize_def)
  next
    case (Some r0)
    let ?c1 = "store pos (ResultArg t d n None (type_Default t)) ctx"
    have j1: "J ?c1" using h a by (intro step_closedD(7)[OF sc j]) (auto intro: shrinks.res)
    from r False a Some obtain ok ctx2 where p: "ctx_pred f cfg ?c1 = Inr (ok, ctx2)"
      by (auto simp: ResourceType_minimize_def split: sum.splits)
    from step_closedD(6)[OF sc j1 p] have j2: "J ctx2" .
    from r False a Some p have "ctx' = tried path (commit ctx2) \<or>
        ctx' = tried path (set_Res pos (Some r0) 0 ctx2)"
      by (auto simp: ResourceType_minimize_def split: if_splits)
    with j2 show ?thesis
      by (auto intro!: step_closedD(1)[OF sc] step_closedD(2)[OF sc] set_Res_closed[OF sc])
  qed
qed

lemma blob_loop_closed:
  "step_closed f cfg J \<Longrightarrow> J ctx \<Longrightarrow>
   blob_loop fuel f cfg pos backing minLen step ctx = Some (Inr ctx') \<Longrightarrow> J ctx'"
proof (induction fuel arbitrary: step ctx)
  case 0
  then show ?case by simp
next
  case (Suc fuel)
  note sc = Suc.prems(1) and j = Suc.prems(2) and r = Suc.prems(3)
  from r obtain cur where c: "Data ctx pos = Some cur" by (auto split: option.splits)
  show ?case
  proof (cases "int (length cur) > minLen \<and> step > 0")
    case False
    with r c j show ?thesis by auto
  next
    case go: True
    show ?thesis
    proof (cases "int (length cur) - step \<ge> minLen")
      case False
      with r c go have "ctx' = ctx \<or>
          blob_loop fuel f cfg pos backing minLen (step div 2) ctx = Some (Inr ctx')"
        by (auto split: if_splits)
      with j Suc.IH[OF sc j] show ?thesis by blast
    next
      case True
      let ?c1 = "assign cfg (set_data pos (take (nat (int (length cur) - step)) cur) ctx)"
      have j1: "J ?c1" by (intro step_closedD(3)[OF sc] set_data_closed[OF sc] j)
      from r c go True obtain ok ctx1 where p: "ctx_pred f cfg ?c1 = Inr (ok, ctx1)"
        by (auto split: if_splits sum.splits)
      from step_closedD(6)[OF sc j1 p] have j2: "J ctx1" .
      show ?thesis
      proof (cases ok)
        case True
        with r c go \<open>int (length cur) - step \<ge> minLen\<close> p
        have "blob_loop fuel f cfg pos backing minLen step ctx1 = Some (Inr ctx')"
          by (auto split: if_splits)
        from Suc.IH[OF sc j2 this] show ?thesis .
      next
        case False
        with r c go \<open>int (length cur) - step \<ge> minLen\<close> p
        obtain cur1 where c1: "Data ctx1 pos = Some cur1"
          by (auto split: if_splits option.splits)
        let ?c2 = "assign cfg (set_data pos (cur1 @ take (nat step) (drop (length cur1) backing)) ctx1)"
        have j3: "J ?c2" by (intro step_closedD(3)[OF sc] set_data_closed[OF sc] j2)
        from r c go \<open>int (length cur) - step \<ge> minLen\<close> p False c1
        have "ctx' = ?c2 \<or> blob_loop fuel f cfg pos backing minLen (step div 2) ?c2 = Some (Inr ctx')"
          by (auto simp: Let_def split: if_splits)
        with j3 Suc.IH[OF sc j3] show ?thesis by blast
      qed
    qed
  qed
qed

lemma BufferType_minimize_closed:
  assumes sc: "step_closed f cfg J" and j: "J ctx"
      and r: "BufferType_minimize fuel f cfg kind rb varlen noZ pos arg path ctx = Some (Inr (b, ctx'))"
  shows "J ctx'"
proof (cases "arg_Dir arg = DirOut \<or> kind = BufferCompressed")
  case True
  with r j show ?thesis by (auto simp: BufferType_minimize_def split: if_splits)
next
  case False
  with r obtain t d bs where a: "arg = DataArg t d bs"
    by (auto simp: BufferType_minimize_def split: Arg.splits)
  show ?thesis
  proof (cases "kind = BufferBlobRand \<or> kind = BufferBlobRange")
    case True
    with r False a obtain ctx1 where
      l: "blob_loop fuel f cfg pos bs (sint rb) (int64 (int (length bs) - sint rb)) ctx = Some (Inr ctx1)"
      and "ctx' = tried path (commit ctx1) \<or> ctx' = ctx1"
      by (auto simp: BufferType_minimize_def Let_def split: option.splits sum.splits if_splits)
    with blob_loop_closed[OF sc j l] show ?thesis
      by (auto intro!: step_closedD(1)[OF sc] step_closedD(2)[OF sc])
  next
    case nb: False
    show ?thesis
    proof (cases "kind = BufferFilename \<and> varlen \<and>
        (if \<not> noZ then TrimRight bs (specialFileLenPad cfg @ [0]) @ [0]
         else TrimRight bs (specialFileLenPad cfg @ [0])) \<noteq> bs")
      case False
      with r \<open>\<not> (arg_Dir arg = DirOut \<or> kind = BufferCompressed)\<close> a nb j show ?thesis
        by (auto simp: BufferType_minimize_def Let_def split: if_splits)
    next
      case True
      let ?bs2 = "if \<not> noZ then TrimRight bs (specialFileLenPad cfg @ [0]) @ [0]
         else TrimRight bs (specialFileLenPad cfg @ [0])"
      from r \<open>\<not> (arg_Dir arg = DirOut \<or> kind = BufferCompressed)\<close> a nb True
      obtain ctx1 where tc: "try_commit f cfg (assign cfg (set_data pos ?bs2 ctx)) = Inr ctx1"
        and c: "ctx' = tried path ctx1"
        by (auto simp: BufferType_minimize_def Let_def split: if_splits sum.splits)
      have "J (assign cfg (set_data pos ?bs2 ctx))"
        by (intro step_closedD(3)[OF sc] set_data_closed[OF sc] j)
      from try_commit_closed[OF sc this tc] c show ?thesis
        by (auto intro!: step_closedD(1)[OF sc])
    qed
  qed
qed

lemma traversal_closed:
  "step_closed f cfg J \<longrightarrow> J ctx \<longrightarrow> held ctx pos = Some arg \<longrightarrow>
     (\<forall>b ctx'. do fuel f cfg pos arg field path ctx = Some (Inr (b, ctx')) \<longrightarrow> J ctx')"
  "step_closed f cfg J \<longrightarrow> J ctx \<longrightarrow> held ctx pos = Some arg \<longrightarrow>
     (\<forall>b ctx'. minimize fuel f cfg pos arg path ctx = Some (Inr (b, ctx')) \<longrightarrow> J ctx')"
  "step_closed f cfg J \<longrightarrow> J ctx \<longrightarrow>
     (\<forall>b ctx'. StructType_fields fuel f cfg pos ty fnames i m path ctx = Some (Inr (b, ctx')) \<longrightarrow> J ctx')"
  "step_closed f cfg J \<longrightarrow> J ctx \<longrightarrow>
     (\<forall>b ctx'. ArrayType_elems fuel f cfg pos ty n path ctx = Some (Inr (b, ctx')) \<longrightarrow> J ctx')"
proof (induction fuel f cfg pos arg field path ctx and fuel f cfg pos arg path ctx
        and fuel f cfg pos ty fnames i m path ctx and fuel f cfg pos ty n path ctx
       rule: do_minimize_StructType_fields_ArrayType_elems.induct)
  case (1 f cfg pos arg field path ctx)
  then show ?case by (simp add: do.simps)
next
  case (2 fuel f cfg pos arg field path ctx)
  show ?case
  proof (intro impI allI)
    fix b ctx'
    assume sc: "step_closed f cfg J" and j: "J ctx" and h: "held ctx pos = Some arg"
      and r: "do (Suc fuel) f cfg pos arg field path ctx = Some (Inr (b, ctx'))"
    show "J ctx'"
    proof (cases "path @ ''-'' @ field \<in> ctx_triedPaths ctx")
      case True
      with r j show ?thesis by (simp add: do.simps)
    next
      case False
      from r False obtain b1 ctx1 where
        m: "minimize fuel f cfg pos arg (path @ ''-'' @ field) ctx = Some (Inr (b1, ctx1))"
        and c: "ctx' = ctx1 \<or> ctx' = tried (path @ ''-'' @ field) ctx1"
        by (auto simp: do.simps Let_def split: option.splits sum.splits if_splits)
      from "2.IH"[OF refl False] sc j h m have "J ctx1" by blast
      with c show ?thesis by (auto intro: step_closedD(1)[OF sc])
    qed
  qed
next
  case (3 fuel f cfg pos arg path ctx)
  show ?case
  proof (intro impI allI)
    fix b ctx'
    assume sc: "step_closed f cfg J" and j: "J ctx" and h: "held ctx pos = Some arg"
      and r: "minimize fuel f cfg pos arg path ctx = Some (Inr (b, ctx'))"
    show "J ctx'"
    proof (cases "arg_Type arg")
      case TypeCommon
      with r j show ?thesis by (simp add: minimize.simps)
    next
      case (IntType dv)
      with r have "minimizeInt f cfg pos arg path ctx = Inr (b, ctx')" by (simp add: minimize.simps)
      from minimizeInt_closed[OF sc j h this] show ?thesis .
    next
      case (FlagsType dv)
      with r have "minimizeInt f cfg pos arg path ctx = Inr (b, ctx')" by (simp add: minimize.simps)
      from minimizeInt_closed[OF sc j h this] show ?thesis .
    next
      case (ProcType opt dv)
      with r have "ctx' = ctx \<or> minimizeInt f cfg pos arg path ctx = Inr (b, ctx')"
        by (auto simp: minimize.simps split: if_splits)
      with j minimizeInt_closed[OF sc j h] show ?thesis by blast
    next
      case (ResourceType dv)
      with r have "ResourceType_minimize f cfg pos arg path ctx = Inr (b, ctx')"
        by (simp add: minimize.simps)
      from ResourceType_minimize_closed[OF sc j h this] show ?thesis .
    next
      case (BufferType kind rb varlen noZ)
      with r have "BufferType_minimize fuel f cfg kind rb varlen noZ pos arg path ctx = Some (Inr (b, ctx'))"
        by (simp add: minimize.simps)
      from BufferType_minimize_closed[OF sc j this] show ?thesis .
    next
      case (StructType fnames)
      with r obtain t d inner where a: "arg = GroupArg t d inner"
        by (auto simp: minimize.simps split: Arg.splits)
      with r StructType have
        "StructType_fields fuel f cfg pos t fnames 0 (length inner) path ctx = Some (Inr (b, ctx'))"
        by (simp add: minimize.simps)
      with "3.IH"(3)[OF StructType a] sc j show ?thesis by blast
    next
      case (UnionType fnames)
      with r obtain t d opt idx where a: "arg = UnionArg t d opt idx"
        by (auto simp: minimize.simps split: Arg.splits)
      with r UnionType obtain name where n: "index FieldsIndex fnames idx = Inr name"
        and d: "do fuel f cfg (pos @ [0]) opt name path ctx = Some (Inr (b, ctx'))"
        by (auto simp: minimize.simps split: sum.splits)
      from h a have "held ctx (pos @ [0]) = Some opt" by (simp add: held_option)
      with "3.IH"(4)[OF UnionType a n] sc j d show ?thesis by blast
    next
      case PtrType
      with r obtain t d addr res where a: "arg = PointerArg t d addr res"
        by (auto simp: minimize.simps split: Arg.splits)
      show ?thesis
      proof (cases res)
        case None
        with r PtrType a j show ?thesis by (simp add: minimize.simps)
      next
        case (Some x)
        show ?thesis
        proof (cases "path @ ''>'' \<notin> ctx_triedPaths ctx")
          case True
          let ?c = "assign cfg (store pos (PointerArg t d 0 None) (remove x ctx))"
          from r PtrType a Some True obtain ctx1 where
            tc: "try_commit f cfg ?c = Inr ctx1" and c: "ctx' = tried (path @ ''>'') ctx1"
            by (auto simp: minimize.simps split: sum.splits)
          from h a Some have "held (remove x ctx) pos =
              Some (PointerArg t d addr (Some (clear_uses (arg_rids x) x)))"
            by (simp add: held_remove)
          then have "J (store pos (PointerArg t d 0 None) (remove x ctx))"
            by (rule step_closedD(7)[OF sc step_closedD(4)[OF sc j]]) (rule shrinks.null)
          then have "J ?c" by (rule step_closedD(3)[OF sc])
          from try_commit_closed[OF sc this tc] c show ?thesis
            by (auto intro: step_closedD(1)[OF sc])
        next
          case False
          with r PtrType a Some have
            d: "do fuel f cfg (pos @ [0]) x [] path ctx = Some (Inr (b, ctx'))"
            by (simp add: minimize.simps)
          from h a Some have "held ctx (pos @ [0]) = Some x" by (simp add: held_pointee)
          with "3.IH"(1)[OF PtrType a Some False] sc j d show ?thesis by blast
        qed
      qed
    next
      case (ArrayType kind rb re)
      with r obtain t d inner where a: "arg = GroupArg t d inner"
        by (auto simp: minimize.simps split: Arg.splits)
      from ArrayType a have t: "t = ArrayType kind rb re" by simp
      show ?thesis
      proof (cases "f = part_000 \<and> 3 \<le> length inner \<and> rb = 0 \<and>
                    path @ ''-all'' \<notin> ctx_triedPaths ctx")
        case True
        let ?pre = "fold remove inner (tried (path @ ''-all'') ctx)"
        let ?c = "assign cfg (store pos (GroupArg t d []) ?pre)"
        from r ArrayType a True obtain ctx1 where
          tc: "try_commit f cfg ?c = Inr ctx1" and c: "ctx' = ctx1"
          by (auto simp: minimize.simps split: sum.splits)
        from h a have "held (tried (path @ ''-all'') ctx) pos = Some (GroupArg t d inner)" by simp
        from held_fold_remove_group[OF this, of inner] obtain inner' where
          h': "held ?pre pos = Some (GroupArg t d inner')" and l: "length inner' = length inner"
          by blast
        have j0: "J ?pre" by (intro fold_remove_closed[OF sc] step_closedD(1)[OF sc] j)
        from True l t have "shrinks f (GroupArg t d inner') (GroupArg t d [])"
          by (auto intro: shrinks.whole)
        from step_closedD(7)[OF sc j0 h' this] have "J ?c" by (rule step_closedD(3)[OF sc])
        from try_commit_closed[OF sc this tc] c show ?thesis by simp
      next
        case False
        with r ArrayType a have
          "ArrayType_elems fuel f cfg pos t (length inner) path ctx = Some (Inr (b, ctx'))"
          by (auto simp: minimize.simps)
        with "3.IH"(2)[OF ArrayType a False] sc j show ?thesis by blast
      qed
    qed
  qed
next
  case (4 fuel f cfg pos ty fnames i path ctx)
  then show ?case by simp
next
  case (5 fuel f cfg pos ty fnames i m path ctx)
  show ?case
  proof (intro impI allI)
    fix b ctx'
    assume sc: "step_closed f cfg J" and j: "J ctx"
      and r: "StructType_fields fuel f cfg pos ty fnames i (Suc m) path ctx = Some (Inr (b, ctx'))"
    from r obtain t d inner where h: "held ctx pos = Some (GroupArg t d inner)"
      by (auto split: option.splits Arg.splits)
    from r h obtain innerArg where
      ix: "(if t = ty then index Detached inner i else Inl Detached) = Inr innerArg"
      by (auto split: sum.splits)
    from r h ix obtain name where n: "index FieldsIndex fnames i = Inr name"
      by (auto split: sum.splits)
    from r h ix n obtain b1 ctx1 where
      d: "do fuel f cfg (pos @ [i]) innerArg name path ctx = Some (Inr (b1, ctx1))"
      by (auto split: option.splits sum.splits)
    from ix have "i < length inner" "innerArg = inner ! i"
      by (auto simp: index_def split: if_splits)
    with h have "held ctx (pos @ [i]) = Some innerArg" by (simp add: held_elem)
    with "5.IH"(1)[OF h refl ix n] sc j d have j1: "J ctx1" by blast
    show "J ctx'"
    proof (cases b1)
      case True
      with r h ix n d j1 show ?thesis by auto
    next
      case False
      with r h ix n d have
        "StructType_fields fuel f cfg pos ty fnames (Suc i) m path ctx1 = Some (Inr (b, ctx'))"
        by auto
      with "5.IH"(2)[OF h refl ix n d refl refl False] sc j1 show ?thesis by blast
    qed
  qed
next
  case (6 fuel f cfg pos ty path ctx)
  then show ?case by simp
next
  case (7 fuel f cfg pos ty i path ctx)
  show ?case
  proof (intro impI allI)
    fix b ctx'
    assume sc: "step_closed f cfg J" and j: "J ctx"
      and r: "ArrayType_elems fuel f cfg pos ty (Suc i) path ctx = Some (Inr (b, ctx'))"
    from r obtain t d inner where h: "held ctx pos = Some (GroupArg t d inner)"
      by (auto split: option.splits Arg.splits)
    from r h obtain elem where
      ix: "(if t = ty then index InnerIndex inner i else Inl Detached) = Inr elem"
      by (auto split: sum.splits)
    from ix have il: "i < length inner" and e: "elem = inner ! i" and tt: "t = ty"
      by (auto simp: index_def split: if_splits)
    let ?ep = "path @ ''-'' @ show_nat i"
    let ?guard = "\<not> ctx_crash ctx \<and> ?ep \<notin> ctx_triedPaths ctx \<and>
         (case ty of ArrayType kind rangeBegin rangeEnd \<Rightarrow>
               kind = ArrayRandLen \<or> kind = ArrayRangeLen \<and> unat rangeBegin < length inner
          | _ \<Rightarrow> False)"
    show "J ctx'"
    proof (cases ?guard)
      case True
      let ?ys = "take i inner @ drop (Suc i) inner"
      let ?c = "assign cfg (remove elem (store pos (GroupArg t d ?ys) (tried ?ep ctx)))"
      from r h ix True obtain ctx1 where tc: "try_commit f cfg ?c = Inr ctx1" and c: "ctx' = ctx1"
        by (auto simp: Let_def split: sum.splits)
      from True obtain k rb re where ty: "ty = ArrayType k rb re"
        and g: "k = ArrayRandLen \<or> k = ArrayRangeLen \<and> unat rb < length inner"
        by (auto split: Type.splits)
      from h have h': "held (tried ?ep ctx) pos = Some (GroupArg t d inner)" by simp
      have "shrinks f (GroupArg t d inner) (GroupArg t d ?ys)"
        unfolding tt ty using il g by (rule shrinks.elem)
      from step_closedD(7)[OF sc step_closedD(1)[OF sc j] h' this]
      have "J ?c" by (intro step_closedD(3)[OF sc] step_closedD(4)[OF sc])
      from try_commit_closed[OF sc this tc] c show ?thesis by simp
    next
      case False
      from r h ix False obtain b1 ctx1 where
        d: "do fuel f cfg (pos @ [i]) elem [] ?ep ctx = Some (Inr (b1, ctx1))"
        by (auto simp: Let_def split: option.splits sum.splits)
      from h il e have "held ctx (pos @ [i]) = Some elem" by (simp add: held_elem)
      with "7.IH"(1)[OF h refl ix refl False] sc j d have j1: "J ctx1" by blast
      show ?thesis
      proof (cases b1)
        case True
        with r h ix False d j1 show ?thesis by (auto simp: Let_def)
      next
        case b1: False
        with r h ix False d have
          "ArrayType_elems fuel f cfg pos ty i path ctx1 = Some (Inr (b, ctx'))"
          by (auto simp: Let_def)
        with "7.IH"(2)[OF h refl ix refl False d refl refl b1] sc j1 show ?thesis by blast
      qed
    qed
  qed
qed

lemma do_closed:
  "step_closed f cfg J \<Longrightarrow> J ctx \<Longrightarrow> held ctx pos = Some arg \<Longrightarrow>
   do fuel f cfg pos arg field path ctx = Some (Inr (b, ctx')) \<Longrightarrow> J ctx'"
  using traversal_closed(1) by blast

lemma held_top:
  "ctx_call ctx < length (Calls (ctx_p ctx)) \<Longrightarrow>
   index ArgsIndex (Args (Calls (ctx_p ctx) ! ctx_call ctx)) j = Inr a \<Longrightarrow>
   held ctx [j] = Some a"
  by (auto simp: held_def node_def index_def split: if_splits)

lemma args_loop_closed:
  assumes sc: "step_closed f cfg J"
      and bound: "\<And>c. J c \<Longrightarrow> ctx_call c < length (Calls (ctx_p c))"
  shows "J ctx \<Longrightarrow> args_loop fuel f cfg names j ctx = Some (Inr (b, ctx')) \<Longrightarrow> J ctx'"
proof (induction names arbitrary: j ctx)
  case Nil
  then show ?case by simp
next
  case (Cons field rest)
  from Cons.prems(2) obtain a where
    ix: "index ArgsIndex (Args (Calls (ctx_p ctx) ! ctx_call ctx)) j = Inr a"
    by (auto split: sum.splits)
  from Cons.prems(2) ix obtain b1 ctx1 where
    d: "do fuel f cfg [j] a field [] ctx = Some (Inr (b1, ctx1))"
    by (auto split: option.splits sum.splits)
  from held_top[OF bound[OF Cons.prems(1)] ix] have "held ctx [j] = Some a" .
  from do_closed[OF sc Cons.prems(1) this d] have j1: "J ctx1" .
  show ?case
  proof (cases b1)
    case True
    with Cons.prems(2) ix d j1 show ?thesis by simp
  next
    case False
    with Cons.prems(2) ix d have "args_loop fuel f cfg rest (Suc j) ctx1 = Some (Inr (b, ctx'))"
      by simp
    from Cons.IH[OF j1 this] show ?thesis .
  qed
qed

lemma again_closed:
  assumes sc: "step_closed f cfg J"
      and bound: "\<And>c. J c \<Longrightarrow> ctx_call c < length (Calls (ctx_p c))"
  shows "J ctx \<Longrightarrow> again fuel f cfg ctx = Some (Inr ctx') \<Longrightarrow> J ctx'"
proof (induction fuel arbitrary: ctx)
  case 0
  then show ?case by simp
next
  case (Suc fuel)
  let ?c = "ctx\<lparr>ctx_p := Clone (ctx_p0 ctx), ctx_cloned := ctx_commits ctx\<rparr>"
  from step_closedD(8)[OF sc Suc.prems(1)] have j0: "J ?c" .
  from Suc.prems(2) obtain c where "index CallsIndex (Calls (ctx_p ?c)) (ctx_call ?c) = Inr c"
    by (auto simp: Let_def split: sum.splits)
  with Suc.prems(2) obtain b1 ctx1 where
    a: "args_loop fuel f cfg (ArgNames (Meta c)) 0 ?c = Some (Inr (b1, ctx1))"
    and r: "if b1 then again fuel f cfg ctx1 = Some (Inr ctx') else ctx' = ctx1"
    by (auto simp: Let_def split: option.splits sum.splits if_splits)
  from args_loop_closed[OF sc bound j0 a] have j1: "J ctx1" .
  with r Suc.IH[of ctx1] show ?case by (auto split: if_splits)
qed

section \<open>Argument-level properties\<close>

text \<open>
  C9.  For an argument of direction \<^verbatim>\<open>DirOut\<close>, \<^verbatim>\<open>BufferType.minimize\<close> returns false
  with the context as it was: nothing is committed, no path is marked, the working
  program is not written and the oracle is not called, whatever the kind of the
  buffer, in either file and with any fuel.
\<close>

theorem C9_out_buffers:
  "arg_Dir arg = DirOut \<Longrightarrow>
   BufferType_minimize fuel f cfg kind rangeBegin varlen noZ pos arg path ctx =
     Some (Inr (False, ctx)) \<and>
   (arg_Type arg = BufferType kind rangeBegin varlen noZ \<longrightarrow>
      minimize fuel f cfg pos arg path ctx = Some (Inr (False, ctx)))"
  by (simp add: BufferType_minimize_def minimize.simps)

theorem C9_out_buffers_witness:
  "arg_Dir (DataArg (BufferType BufferFilename 0 True False) DirOut [47, 0]) = DirOut \<and>
   BufferType_minimize 0 part_000 (plain_config buffer_oracle False) BufferFilename 0 True False
     [0] (DataArg (BufferType BufferFilename 0 True False) DirOut [47, 0]) ''-arg''
     (start_ctx (buffer_prog (DataArg (BufferType BufferFilename 0 True False) DirOut [47, 0])) 0 0 False 0) =
   Some (Inr (False, start_ctx (buffer_prog (DataArg (BufferType BufferFilename 0 True False) DirOut [47, 0])) 0 0 False 0)) \<and>
   minimize 0 minimization_go (plain_config buffer_oracle False)
     [0] (DataArg (BufferType BufferFilename 0 True False) DirOut [47, 0]) ''-arg''
     (start_ctx (buffer_prog (DataArg (BufferType BufferFilename 0 True False) DirOut [47, 0])) 0 0 False 0) =
   Some (Inr (False, start_ctx (buffer_prog (DataArg (BufferType BufferFilename 0 True False) DirOut [47, 0])) 0 0 False 0))"
  using C9_out_buffers[of "DataArg (BufferType BufferFilename 0 True False) DirOut [47, 0]"
      0 part_000 "plain_config buffer_oracle False" BufferFilename 0 True False "[0]" "''-arg''"
      "start_ctx (buffer_prog (DataArg (BufferType BufferFilename 0 True False) DirOut [47, 0])) 0 0 False 0"]
    C9_out_buffers[of "DataArg (BufferType BufferFilename 0 True False) DirOut [47, 0]"
      0 minimization_go "plain_config buffer_oracle False" BufferFilename 0 True False "[0]" "''-arg''"
      "start_ctx (buffer_prog (DataArg (BufferType BufferFilename 0 True False) DirOut [47, 0])) 0 0 False 0"]
  by simp

lemma minimizeInt_crash:
  "ctx_crash ctx \<Longrightarrow> minimizeInt f cfg pos arg path ctx = Inr (False, ctx)"
  by (simp add: minimizeInt_def)

lemma ResourceType_minimize_crash:
  "ctx_crash ctx \<Longrightarrow> ResourceType_minimize f cfg pos arg path ctx = Inr (False, ctx)"
  by (simp add: ResourceType_minimize_def)

lemma ctx_pred_crash:
  "ctx_pred f cfg ctx = Inr (ok, ctx1) \<Longrightarrow> ctx_crash ctx1 = ctx_crash ctx"
  by (auto simp: ctx_pred_def split: sum.splits prod.splits source_file.splits)

lemma set_data_crash [simp]: "ctx_crash (set_data pos bs ctx) = ctx_crash ctx"
  by (simp add: set_data_def store_def split: option.splits Arg.splits)

lemma assign_crash [simp]: "ctx_crash (assign cfg ctx) = ctx_crash ctx"
  by (simp add: assign_def)

text \<open>In crash mode the halving loop ends with the first rejected probe.\<close>

lemma blob_loop_crash:
  assumes "ctx_crash ctx" and "Data ctx pos = Some cur"
      and "minLen < int (length cur)" "0 < step" "minLen \<le> int (length cur) - step"
          "0 \<le> int (length cur) - step"
      and "ctx_pred f cfg (assign cfg (set_data pos (take (nat (int (length cur) - step)) cur) ctx)) =
             Inr (False, ctx1)"
      and "Data ctx1 pos = Some cur1" "int (length cur1) + step \<le> int (length backing)"
  shows "blob_loop (Suc fuel) f cfg pos backing minLen step ctx =
           Some (Inr (assign cfg (set_data pos (cur1 @ take (nat step) (drop (length cur1) backing)) ctx1)))"
  using assms ctx_pred_crash[OF assms(7)] by (simp add: Let_def)


lemma crash_elements_kept:
  "Minimize 5 (plain_config keep_call_oracle False) \<lparr>InfluenceMatrix = [[0]], ostate = 0\<rparr>
     (array_prog [int_arg 1, int_arg 2, int_arg 3]) (- 1) True =
   Some (Inr (array_prog [int_arg 1, int_arg 2, int_arg 3], - 1, False,
              \<lparr>InfluenceMatrix = [[0]], ostate = 1\<rparr>))"
  by code_simp

section \<open>Panics\<close>

lemma try_commit_err: "try_commit f cfg ctx = Inl e \<Longrightarrow> e = ValidateFailed"
  by (auto simp: try_commit_def split: sum.splits prod.splits dest: ctx_pred_err)

lemma minimizeInt_err: "minimizeInt f cfg pos arg path ctx = Inl e \<Longrightarrow> e \<in> arg_errors"
  by (auto simp: minimizeInt_def arg_errors_def
      split: if_splits Arg.splits option.splits sum.splits prod.splits dest: ctx_pred_err)

lemma ResourceType_minimize_err:
  "ResourceType_minimize f cfg pos arg path ctx = Inl e \<Longrightarrow> e \<in> arg_errors"
  by (auto simp: ResourceType_minimize_def arg_errors_def
      split: if_splits Arg.splits option.splits sum.splits dest: ctx_pred_err)

lemma blob_loop_err:
  "blob_loop fuel f cfg pos backing minLen step ctx = Some (Inl e) \<Longrightarrow> e \<in> arg_errors"
proof (induction fuel arbitrary: step ctx)
  case 0
  then show ?case by simp
next
  case (Suc fuel)
  from Suc.prems Suc.IH show ?case
    by (auto simp: arg_errors_def Let_def split: option.splits if_splits sum.splits prod.splits
        dest: ctx_pred_err)
qed

lemma BufferType_minimize_err:
  "BufferType_minimize fuel f cfg kind rb varlen noZ pos arg path ctx = Some (Inl e) \<Longrightarrow>
   e \<in> arg_errors"
  by (auto simp: BufferType_minimize_def Let_def arg_errors_def
      split: if_splits Arg.splits sum.splits option.splits
      dest!: try_commit_err dest: blob_loop_err[unfolded arg_errors_def])

lemma traversal_err:
  "do fuel f cfg pos arg field path ctx = Some (Inl e) \<longrightarrow> e \<in> arg_errors"
  "minimize fuel f cfg pos arg path ctx = Some (Inl e) \<longrightarrow> e \<in> arg_errors"
  "StructType_fields fuel f cfg pos ty fnames i m path ctx = Some (Inl e) \<longrightarrow> e \<in> arg_errors"
  "ArrayType_elems fuel f cfg pos ty n path ctx = Some (Inl e) \<longrightarrow> e \<in> arg_errors"
proof (induction fuel f cfg pos arg field path ctx and fuel f cfg pos arg path ctx
        and fuel f cfg pos ty fnames i m path ctx and fuel f cfg pos ty n path ctx
       rule: do_minimize_StructType_fields_ArrayType_elems.induct)
  case (1 f cfg pos arg field path ctx)
  then show ?case by (simp add: do.simps)
next
  case (2 fuel f cfg pos arg field path ctx)
  show ?case
  proof (cases "path @ ''-'' @ field \<in> ctx_triedPaths ctx")
    case True
    then show ?thesis by (simp add: do.simps)
  next
    case False
    from "2.IH"[OF refl False] show ?thesis
      by (auto simp: do.simps Let_def arg_errors_def split: option.splits sum.splits if_splits)
  qed
next
  case (3 fuel f cfg pos arg path ctx)
  show ?case
  proof
    assume a: "minimize fuel f cfg pos arg path ctx = Some (Inl e)"
    show "e \<in> arg_errors"
    proof (cases "arg_Type arg")
      case (IntType dv)
      with a show ?thesis by (auto simp: minimize.simps dest: minimizeInt_err)
    next
      case (FlagsType dv)
      with a show ?thesis by (auto simp: minimize.simps dest: minimizeInt_err)
    next
      case (ProcType opt dv)
      with a show ?thesis by (auto simp: minimize.simps split: if_splits dest: minimizeInt_err)
    next
      case PtrType
      with a "3.IH"(1) show ?thesis
        by (auto simp: minimize.simps arg_errors_def
            split: Arg.splits option.splits if_splits sum.splits dest: try_commit_err)
    next
      case (ArrayType kind rb re)
      with a "3.IH"(2) show ?thesis
        by (auto simp: minimize.simps arg_errors_def
            split: Arg.splits if_splits sum.splits dest: try_commit_err)
    next
      case (StructType fnames)
      with a "3.IH"(3) show ?thesis
        by (auto simp: minimize.simps arg_errors_def split: Arg.splits)
    next
      case (UnionType fnames)
      with a "3.IH"(4) show ?thesis
        by (auto simp: minimize.simps arg_errors_def index_def
            split: Arg.splits sum.splits if_splits)
    next
      case (BufferType kind rb varlen noZ)
      with a show ?thesis by (auto simp: minimize.simps dest: BufferType_minimize_err)
    next
      case (ResourceType dv)
      with a show ?thesis by (auto simp: minimize.simps dest: ResourceType_minimize_err)
    next
      case TypeCommon
      with a show ?thesis by (auto simp: minimize.simps)
    qed
  qed
next
  case (4 fuel f cfg pos ty fnames i path ctx)
  then show ?case by simp
next
  case (5 fuel f cfg pos ty fnames i m path ctx)
  show ?case
  proof
    assume a: "StructType_fields fuel f cfg pos ty fnames i (Suc m) path ctx = Some (Inl e)"
    show "e \<in> arg_errors"
    proof (cases "held ctx pos")
      case None
      with a show ?thesis by (simp add: arg_errors_def)
    next
      case (Some x)
      show ?thesis
      proof (cases x)
        case (GroupArg t d inner)
        show ?thesis
        proof (cases "if t = ty then index Detached inner i else Inl Detached")
          case (Inl e')
          with a Some GroupArg show ?thesis
            by (auto simp: arg_errors_def index_def split: if_splits)
        next
          case (Inr innerArg)
          show ?thesis
          proof (cases "index FieldsIndex fnames i")
            case (Inl e')
            with a Some GroupArg Inr show ?thesis
              by (auto simp: arg_errors_def index_def split: if_splits)
          next
            case n: (Inr name)
            from a Some GroupArg Inr n "5.IH"(1)[OF Some GroupArg Inr n]
              "5.IH"(2)[OF Some GroupArg Inr n]
            show ?thesis
              by (auto split: option.splits sum.splits if_splits prod.splits)
          qed
        qed
      qed (use a Some in \<open>auto simp: arg_errors_def\<close>)
    qed
  qed
next
  case (6 fuel f cfg pos ty path ctx)
  then show ?case by simp
next
  case (7 fuel f cfg pos ty i path ctx)
  show ?case
  proof
    assume a: "ArrayType_elems fuel f cfg pos ty (Suc i) path ctx = Some (Inl e)"
    show "e \<in> arg_errors"
    proof (cases "held ctx pos")
      case None
      with a show ?thesis by (simp add: arg_errors_def)
    next
      case (Some x)
      show ?thesis
      proof (cases x)
        case (GroupArg t d inner)
        show ?thesis
        proof (cases "if t = ty then index InnerIndex inner i else Inl Detached")
          case (Inl e')
          with a Some GroupArg show ?thesis
            by (auto simp: arg_errors_def index_def split: if_splits)
        next
          case (Inr elem)
          show ?thesis
          proof (cases "\<not> ctx_crash ctx \<and> path @ ''-'' @ show_nat i \<notin> ctx_triedPaths ctx \<and>
               (case ty of ArrayType kind rangeBegin rangeEnd \<Rightarrow>
                     kind = ArrayRandLen \<or> kind = ArrayRangeLen \<and> unat rangeBegin < length inner
                | _ \<Rightarrow> False)")
            case True
            with a Some GroupArg Inr show ?thesis
              by (auto simp: Let_def arg_errors_def split: sum.splits dest: try_commit_err)
          next
            case False
            from a Some GroupArg Inr False "7.IH"(1)[OF Some GroupArg Inr refl False]
              "7.IH"(2)[OF Some GroupArg Inr refl False]
            show ?thesis
              by (auto simp: Let_def split: option.splits sum.splits if_splits prod.splits)
          qed
        qed
      qed (use a Some in \<open>auto simp: arg_errors_def\<close>)
    qed
  qed
qed

lemma do_err: "do fuel f cfg pos arg field path ctx = Some (Inl e) \<Longrightarrow> e \<in> arg_errors"
  using traversal_err(1) by blast

lemma args_loop_err:
  "args_loop fuel f cfg names j ctx = Some (Inl e) \<Longrightarrow> e \<in> insert ArgsIndex arg_errors"
proof (induction names arbitrary: j ctx)
  case Nil
  then show ?case by simp
next
  case (Cons field rest)
  from Cons.prems Cons.IH show ?case
    by (auto simp: index_def split: option.splits sum.splits if_splits prod.splits dest: do_err)
qed

lemma again_err:
  "again fuel f cfg ctx = Some (Inl e) \<Longrightarrow> e \<in> insert CallsIndex (insert ArgsIndex arg_errors)"
proof (induction fuel arbitrary: ctx)
  case 0
  then show ?case by simp
next
  case (Suc fuel)
  from Suc.prems Suc.IH show ?case
    by (auto simp: Let_def index_def split: option.splits sum.splits if_splits prod.splits
        dest: args_loop_err)
qed

lemma drop_prop_err: "drop_prop cfg i k g f s = Inl e \<Longrightarrow> e = CallsIndex \<or> e = ValidateFailed"
  by (auto simp: drop_prop_def Let_def index_def split: sum.splits if_splits prod.splits dest: pred_err)

lemma minimizeCallProps_err:
  "minimizeCallProps cfg env p i k = Inl e \<Longrightarrow> e = CallsIndex \<or> e = ValidateFailed"
  by (auto simp: minimizeCallProps_def Let_def index_def split: sum.splits if_splits
      dest: drop_prop_err)

lemma resetCallProps_err: "resetCallProps cfg env p k = Inl e \<Longrightarrow> e = ValidateFailed"
  by (auto simp: resetCallProps_def Let_def split: sum.splits if_splits prod.splits dest: pred_err)

lemma calls_loop_err:
  "calls_loop fuel f cfg k crash i s = Some (Inl e) \<Longrightarrow>
   e \<in> insert CallsIndex (insert ArgsIndex arg_errors)"
proof (induction fuel arbitrary: i s)
  case 0
  then show ?case by simp
next
  case (Suc fuel)
  obtain p0 env where s: "s = (p0, env)" by (cases s)
  from Suc.prems Suc.IH show ?case
    unfolding s
    by (auto simp: arg_errors_def split: sum.splits if_splits option.splits source_file.splits
        dest!: again_err minimizeCallProps_err)
qed

lemma Minimize_err:
  "Minimize fuel cfg env p0 k crash = Some (Inl e) \<Longrightarrow>
   e \<in> {BadCallIndex, BadCallIndexAfter, CallsIndex, ArgsIndex, MatrixIndex, CovHashIndex} \<union> arg_errors"
  by (auto simp: Minimize_def Let_def arg_errors_def split: sum.splits if_splits option.splits prod.splits
      dest!: removeCalls_optimize_err resetCallProps_err calls_loop_err)

lemma pred_typed_err: "pred_typed cfg env p k flag = Inl e \<Longrightarrow> e = ValidateFailed"
  by (auto simp: pred_typed_def Let_def split: if_splits prod.splits)

lemma collect_err: "collect xs = Inl e \<Longrightarrow> Inl e \<in> set xs"
  by (induction xs) (auto split: sum.splits)

lemma uses_here_err: "Inl e = uses_here p a \<Longrightarrow> e = TypeAssertion"
  by (auto simp: uses_here_def split: Type.splits Arg.splits if_splits)

lemma arg_uses_err: "Inl e = arg_uses p a \<Longrightarrow> e = TypeAssertion"
proof (induction p a rule: arg_uses.induct)
  case (1 p t d a r)
  from "1.prems" have "Inl e \<in> set [uses_here p (PointerArg t d a r),
      (case r of None \<Rightarrow> Inr [] | Some x \<Rightarrow> arg_uses p x)]"
    unfolding arg_uses.simps by (intro collect_err) simp
  with "1.IH" show ?case by (auto dest: uses_here_err split: option.splits)
next
  case (2 p t d xs)
  from "2.prems" have "Inl e \<in> set (uses_here p (GroupArg t d xs) # map (arg_uses p) xs)"
    unfolding arg_uses.simps by (intro collect_err) simp
  with "2.IH" show ?case by (auto dest: uses_here_err)
next
  case (3 p t d x i)
  from "3.prems" have "Inl e \<in> set [uses_here p (UnionArg t d x i), arg_uses p x]"
    unfolding arg_uses.simps by (intro collect_err) simp
  with "3.IH" show ?case by (auto dest: uses_here_err)
qed (auto dest: uses_here_err)

lemma uses_err: "uses p c = Inl e \<Longrightarrow> e = TypeAssertion"
proof -
  assume "uses p c = Inl e"
  then have "collect (map (arg_uses p) ((case Ret c of None \<Rightarrow> [] | Some r \<Rightarrow> [r]) @ Args c)) = Inl e"
    by (auto simp: uses_def split: sum.splits)
  from collect_err[OF this] show ?thesis by (auto dest: arg_uses_err)
qed

lemma related_round_err:
  "related_round p0 is s = Inl e \<Longrightarrow> e = TypeAssertion"
proof (induction "is" arbitrary: s)
  case Nil
  then show ?case by simp
next
  case (Cons i "is")
  obtain keepCalls used where s: "s = (keepCalls, used)" by (cases s)
  from Cons.prems Cons.IH show ?case
    unfolding s by (auto split: if_splits sum.splits dest: uses_err)
qed

lemma related_loop_err: "related_loop p0 s = Inl e \<Longrightarrow> e = TypeAssertion"
proof (induction p0 s rule: related_loop.induct)
  case (1 p0 keepCalls used)
  from "1.prems" "1.IH" show ?case
    by (subst (asm) related_loop.simps)
       (auto split: sum.splits prod.splits if_splits dest: related_round_err)
qed

lemma relatedCalls_err: "relatedCalls p0 k = Inl e \<Longrightarrow> e = CallsIndex \<or> e = TypeAssertion"
  by (auto simp: relatedCalls_def index_def split: sum.splits if_splits
      dest: uses_err related_loop_err)

lemma removeUnrelatedCalls_err:
  "removeUnrelatedCalls cfg env p0 k = Inl e \<Longrightarrow>
   e = CallsIndex \<or> e = TypeAssertion \<or> e = ValidateFailed"
  by (auto simp: removeUnrelatedCalls_def split: sum.splits if_splits prod.splits
      dest: relatedCalls_err pred_typed_err)

lemma remove_one_typed_err: "remove_one_typed cfg i s = Inl e \<Longrightarrow> e = ValidateFailed"
  by (auto simp: remove_one_typed_def Let_def split: if_splits prod.splits sum.splits
      dest: pred_typed_err)

lemma pairwise_typed_err: "pairwise_typed cfg is s = Inl e \<Longrightarrow> e = ValidateFailed"
  by (induction "is" arbitrary: s) (auto split: sum.splits dest: remove_one_typed_err)

lemma remove_front_ids_err:
  "remove_front_ids M p0 k = Inl e \<Longrightarrow> e = CallsIndex \<or> e = MatrixIndex"
  by (auto simp: remove_front_ids_def Let_def split: if_splits prod.splits sum.splits
      dest: seeds_err drain_err)

lemma removeCalls_err:
  "removeCalls cfg env p0 k crash = Inl e \<Longrightarrow>
   e = ValidateFailed \<or> e = CallsIndex \<or> e = MatrixIndex \<or> e = TypeAssertion"
  by (auto simp: removeCalls_def remove_post_typed_def Let_def
      split: if_splits prod.splits sum.splits
      dest: pred_typed_err pairwise_typed_err remove_front_ids_err removeUnrelatedCalls_err)

lemma Minimize_part_000_err:
  "Minimize_part_000 fuel cfg env p0 k crash = Some (Inl e) \<Longrightarrow>
   e \<in> {BadCallIndex, BadCallIndexAfter, CallsIndex, ArgsIndex, MatrixIndex} \<union> arg_errors"
  by (auto simp: Minimize_part_000_def Let_def arg_errors_def
      split: sum.splits if_splits option.splits prod.splits
      dest!: removeCalls_err calls_loop_err)

text \<open>
  C10.  \<^verbatim>\<open>Dequeue\<close> fails (index out of range on \<^verbatim>\<open>q.items[0]\<close>) exactly on the empty
  queue, and otherwise returns the first item and the rest.  The search loop of
  \<^verbatim>\<open>removeCalls_optimize\<close> and \<^verbatim>\<open>removeCalls\<close> calls it only under the guard
  \<^verbatim>\<open>queue.Length() > 0\<close>: neither the loop, nor \<^verbatim>\<open>removeCalls_optimize\<close>, nor
  \<^verbatim>\<open>removeCalls\<close>, nor \<^verbatim>\<open>Minimize\<close> of either file ever ends in that failure.
\<close>

theorem C10_dequeue_guarded:
  "(Dequeue q = Inl ItemsIndex) = (items q = []) \<and>
   (Dequeue q = Inl ItemsIndex \<or>
    Dequeue q = Inr (hd (items q), True, q\<lparr>items := tl (items q)\<rparr>)) \<and>
   drain M cs queue_map s \<noteq> Inl ItemsIndex \<and>
   removeCalls_optimize cfg env p0 callIndex0 crash \<noteq> Inl ItemsIndex \<and>
   Minimize fuel cfg env p0 callIndex0 crash \<noteq> Some (Inl ItemsIndex) \<and>
   removeCalls cfg env p0 callIndex0 crash \<noteq> Inl ItemsIndex \<and>
   Minimize_part_000 fuel cfg env p0 callIndex0 crash \<noteq> Some (Inl ItemsIndex)"
proof -
  have a: "(Dequeue q = Inl ItemsIndex) = (items q = [])"
    by (cases "items q") (simp_all add: Dequeue_def index_def)
  have b: "Dequeue q = Inl ItemsIndex \<or>
           Dequeue q = Inr (hd (items q), True, q\<lparr>items := tl (items q)\<rparr>)"
    by (cases "items q") (simp_all add: Dequeue_def index_def)
  have c: "drain M cs queue_map s \<noteq> Inl ItemsIndex"
    using drain_err[of M cs queue_map s ItemsIndex] by auto
  have d: "removeCalls_optimize cfg env p0 callIndex0 crash \<noteq> Inl ItemsIndex"
    using removeCalls_optimize_err[of cfg env p0 callIndex0 crash ItemsIndex] by auto
  have e: "Minimize fuel cfg env p0 callIndex0 crash \<noteq> Some (Inl ItemsIndex)"
    using Minimize_err[of fuel cfg env p0 callIndex0 crash ItemsIndex]
    by (auto simp: arg_errors_def)
  have f: "removeCalls cfg env p0 callIndex0 crash \<noteq> Inl ItemsIndex"
    using removeCalls_err[of cfg env p0 callIndex0 crash ItemsIndex] by auto
  have g: "Minimize_part_000 fuel cfg env p0 callIndex0 crash \<noteq> Some (Inl ItemsIndex)"
    using Minimize_part_000_err[of fuel cfg env p0 callIndex0 crash ItemsIndex]
    by (auto simp: arg_errors_def)
  from a b c d e f g show ?thesis by blast
qed

end
